theory Spec2Isabelle
  imports Complex_Main
begin

section \<open>Values and errors\<close>

text \<open>
  The values that \<^verbatim>\<open>response.json()\<close> hands to the program. \<open>'n\<close> is the type of the
  numbers (Python ints and floats other than NaN), of which the development uses the
  order only. The parser of Python also reads the literal \<^verbatim>\<open>NaN\<close>, which is not
  JSON, and hands out the float NaN for it: that is \<open>JNaN\<close>. An object is the list of its
  keys and values in insertion order.
\<close>

datatype 'n json =
    JNull
  | JBool bool
  | JNum 'n
  | JNaN
  | JStr string
  | JArr "'n json list"
  | JObj "(string \<times> 'n json) list"

text \<open>The exceptions that the library calls of \<^verbatim>\<open>streamlit_app.py\<close> raise.\<close>

datatype py_error =
    ConnectionError
  | JSONDecodeError
  | AttributeError
  | TypeError
  | KeyError string
  | StreamlitAPIException

definition bind_e :: "py_error + 'a \<Rightarrow> ('a \<Rightarrow> py_error + 'b) \<Rightarrow> py_error + 'b" where
  "bind_e m f = (case m of Inl e \<Rightarrow> Inl e | Inr x \<Rightarrow> f x)"

text \<open>
  \<^verbatim>\<open>d.get(k, default)\<close>: the value under \<open>k\<close>, the default when the key is absent
  (a key that is present with the value \<^verbatim>\<open>null\<close> gives \<open>JNull\<close>, not the default);
  only a dict has the method.
\<close>

fun get_py :: "'n json \<Rightarrow> string \<Rightarrow> 'n json \<Rightarrow> py_error + 'n json" where
  "get_py (JObj kvs) k d = Inr (case map_of kvs k of None \<Rightarrow> d | Some v \<Rightarrow> v)"
| "get_py _ k d = Inl AttributeError"

text \<open>
  \<^verbatim>\<open>for item in results\<close>: the elements of a list, the keys of a dict, the characters
  of a string; \<^verbatim>\<open>None\<close>, a bool and a number are not iterable.
\<close>

fun iter_py :: "'n json \<Rightarrow> py_error + 'n json list" where
  "iter_py (JArr xs) = Inr xs"
| "iter_py (JObj kvs) = Inr (map (\<lambda>kv. JStr (fst kv)) kvs)"
| "iter_py (JStr s) = Inr (map (\<lambda>c. JStr [c]) s)"
| "iter_py _ = Inl TypeError"

section \<open>The fetch loop\<close>

text \<open>
  \<^verbatim>\<open>range(start, stop, step)\<close> for a positive step, as the sequence of values the
  \<^verbatim>\<open>for\<close> loop takes.
\<close>

function range_py :: "int \<Rightarrow> int \<Rightarrow> int \<Rightarrow> int list" where
  "range_py start stop step =
     (if 0 < step \<and> start < stop then start # range_py (start + step) stop step else [])"
  by pat_completeness auto
termination
  by (relation "measure (\<lambda>(start, stop, step). nat (stop - start))") auto

declare range_py.simps [simp del]

definition total_results :: int where
  "total_results = 271"

definition count :: int where
  "count = 20"

text \<open>
  What the program does to the outside, in order: a call of \<^verbatim>\<open>requests.post\<close> whose
  payload carries the offset (every other field of the payload is the fixed template;
  the call is in the trace also when it raises), a message shown with \<^verbatim>\<open>st.error\<close>
  (offset and status code), a pause of \<^verbatim>\<open>time.sleep\<close> seconds.
\<close>

datatype event = Post int | StError int int | Sleep nat

record 'n response =
  status_code :: int
  json_body :: "'n json option"

text \<open>\<^verbatim>\<open>response.json()\<close> raises when the body is not JSON (\<open>None\<close>).\<close>

definition response_json :: "'n response \<Rightarrow> py_error + 'n json" where
  "response_json r = (case json_body r of None \<Rightarrow> Inl JSONDecodeError | Some v \<Rightarrow> Inr v)"

type_synonym 'n row = "(string \<times> 'n json) list"

text \<open>The character U+2193 (downwards arrow) of the market-cap key, in UTF-8.\<close>

definition arrow_down :: string where
  "arrow_down = [CHR 0xE2, CHR 0x86, CHR 0x93]"

text \<open>Lines 45 to 60: one result of a page becomes one row.\<close>

definition build_row :: "'n json \<Rightarrow> py_error + 'n row" where
  "build_row item =
     bind_e (get_py item ''stock'' (JObj [])) (\<lambda>stock_info.
     bind_e (get_py stock_info ''advancedRatios'' (JObj [])) (\<lambda>ratios.
     bind_e (get_py stock_info ''info'' (JObj [])) (\<lambda>info.
     bind_e (get_py info ''name'' (JStr '''')) (\<lambda>v0.
     bind_e (get_py ratios ''subindustry'' (JStr '''')) (\<lambda>v1.
     bind_e (get_py ratios ''mrktCapf'' (JStr ''NA'')) (\<lambda>v2.
     bind_e (get_py ratios ''lastPrice'' (JStr ''NA'')) (\<lambda>v3.
     bind_e (get_py ratios ''pr1d'' (JStr ''NA'')) (\<lambda>v4.
     bind_e (get_py ratios ''4wpct'' (JStr ''NA'')) (\<lambda>v5.
     bind_e (get_py ratios ''26wpct'' (JStr ''NA'')) (\<lambda>v6.
     bind_e (get_py ratios ''52wpct'' (JStr ''NA'')) (\<lambda>v7.
     bind_e (get_py ratios ''12mVolN'' (JStr ''NA'')) (\<lambda>v8.
     bind_e (get_py ratios ''expenseRatio'' (JStr ''NA'')) (\<lambda>v9.
     Inr [(''Name'', v0),
          (''Sub-Sector'', v1),
          (arrow_down @ ''Market Cap'', v2),
          (''Close Price'', v3),
          (''1D Return'', v4),
          (''1M Return'', v5),
          (''6M Return'', v6),
          (''1Y Return'', v7),
          (''Volatility vs Nifty'', v8),
          (''Expense Ratio'', v9)])))))))))))))"

text \<open>
  The inner loop, lines 44 to 61: the rows of a page are appended in order. When a
  result raises, the rows of the results before it are in the list already.
\<close>

fun append_rows :: "'n row list \<Rightarrow> 'n json list \<Rightarrow> 'n row list \<times> py_error option" where
  "append_rows all_data [] = (all_data, None)"
| "append_rows all_data (item # items) =
     (case build_row item of
        Inl e \<Rightarrow> (all_data, Some e)
      | Inr row \<Rightarrow> append_rows (all_data @ [row]) items)"

record 'n fetch_state =
  all_data :: "'n row list"
  trace :: "event list"

text \<open>
  One turn of the outer loop, lines 38 to 64: the state at its end and the exception
  that ends it, if one is raised. \<open>net\<close> is the remote endpoint: what
  \<^verbatim>\<open>requests.post\<close> returns for the payload with this offset, or the exception it
  raises. There is no handler: an exception ends the turn where it is raised, before
  the pause of line 64.
\<close>

definition fetch_page ::
  "(int \<Rightarrow> py_error + 'n response) \<Rightarrow> 'n fetch_state \<Rightarrow> int \<Rightarrow>
     'n fetch_state \<times> py_error option" where
  "fetch_page net s offset =
     (let s1 = s\<lparr>trace := trace s @ [Post offset]\<rparr> in
      case net offset of
        Inl e \<Rightarrow> (s1, Some e)
      | Inr response \<Rightarrow>
          if status_code response = 200 then
            (case bind_e (response_json response) (\<lambda>body.
                  bind_e (get_py body ''data'' (JObj [])) (\<lambda>data.
                  bind_e (get_py data ''results'' (JArr [])) (\<lambda>results.
                  iter_py results))) of
               Inl e \<Rightarrow> (s1, Some e)
             | Inr items \<Rightarrow>
                 (case append_rows (all_data s1) items of
                    (new_data, Some e) \<Rightarrow> (s1\<lparr>all_data := new_data\<rparr>, Some e)
                  | (new_data, None) \<Rightarrow>
                      (s1\<lparr>all_data := new_data, trace := trace s1 @ [Sleep 1]\<rparr>, None)))
          else
            (s1\<lparr>trace := trace s1 @ [StError offset (status_code response), Sleep 1]\<rparr>,
             None))"

text \<open>The outer loop: an exception leaves it at once, with the state of that moment.\<close>

fun fetch_loop ::
  "(int \<Rightarrow> py_error + 'n response) \<Rightarrow> 'n fetch_state \<Rightarrow> int list \<Rightarrow>
     'n fetch_state \<times> py_error option" where
  "fetch_loop net s [] = (s, None)"
| "fetch_loop net s (offset # offsets) =
     (case fetch_page net s offset of
        (s', Some e) \<Rightarrow> (s', Some e)
      | (s', None) \<Rightarrow> fetch_loop net s' offsets)"

text \<open>
  Lines 33 to 64 of \<^verbatim>\<open>fetch_etf_data\<close>: the state when the loop is left, and the
  exception that left it, if any.
\<close>

definition fetch_run ::
  "(int \<Rightarrow> py_error + 'n response) \<Rightarrow> 'n fetch_state \<times> py_error option" where
  "fetch_run net =
     fetch_loop net \<lparr>all_data = [], trace = []\<rparr> (range_py 0 total_results count)"

text \<open>
  The same lines as the rest of \<^verbatim>\<open>fetch_etf_data\<close> sees them: the state with which
  the loop reaches its end, or the exception, which leaves the function as well.
\<close>

definition fetch_all :: "(int \<Rightarrow> py_error + 'n response) \<Rightarrow> py_error + 'n fetch_state" where
  "fetch_all net = (case fetch_run net of (s, None) \<Rightarrow> Inr s | (s, Some e) \<Rightarrow> Inl e)"

text \<open>The offsets of the requests of a trace, in the order they were sent.\<close>

fun posts :: "event list \<Rightarrow> int list" where
  "posts [] = []"
| "posts (Post offset # es) = offset # posts es"
| "posts (_ # es) = posts es"

section \<open>The table\<close>

text \<open>
  A cell of a frame: a value as it came from the response, or the float NaN that pandas
  writes for a value that is missing or does not parse.
\<close>

datatype 'n cell = Val "'n json" | NaN

text \<open>
  \<^verbatim>\<open>isna\<close>: \<^verbatim>\<open>None\<close> and NaN are the null-like values, also a NaN that came with
  the response; the empty string is not.
\<close>

fun isna :: "'n cell \<Rightarrow> bool" where
  "isna NaN = True"
| "isna (Val JNull) = True"
| "isna (Val JNaN) = True"
| "isna (Val _) = False"

text \<open>
  The column labels of a frame. A frame made from no data has a \<open>RangeIndex\<close> of
  length 0 for its columns from pandas 2.0 on, and an empty \<open>Index\<close> of dtype object
  before.
\<close>

datatype index = RangeIndex nat | Index "string list"

text \<open>
  A frame: the column labels, and the rows in order, each with its row label (the
  position of its record in the data the frame was made from) and one cell per column.
\<close>

record 'n data_frame =
  columns :: index
  rows :: "(nat \<times> 'n cell list) list"

text \<open>
  \<^verbatim>\<open>pd.DataFrame(all_data)\<close> for a list of dicts that all have the keys of the first,
  as the rows of \<open>build_row\<close> do: the columns are these keys in order; a key missing
  from a dict would give NaN. \<open>pandas2\<close> says whether the library is pandas 2.0 or
  later.
\<close>

definition DataFrame_py :: "bool \<Rightarrow> 'n row list \<Rightarrow> 'n data_frame" where
  "DataFrame_py pandas2 data =
     (case data of
        [] \<Rightarrow> \<lparr>columns = (if pandas2 then RangeIndex 0 else Index []), rows = []\<rparr>
      | d0 # _ \<Rightarrow>
          \<lparr>columns = Index (map fst d0),
           rows = zip [0..<length data]
             (map (\<lambda>d. map (\<lambda>k. case map_of d k of None \<Rightarrow> NaN | Some v \<Rightarrow> Val v)
                (map fst d0)) data)\<rparr>)"

text \<open>\<^verbatim>\<open>df.dropna(inplace=True)\<close>: a row with a null-like cell in any column goes.\<close>

definition dropna :: "'n data_frame \<Rightarrow> 'n data_frame" where
  "dropna df = df\<lparr>rows := filter (\<lambda>lr. \<not> list_ex isna (snd lr)) (rows df)\<rparr>"

text \<open>
  The \<^verbatim>\<open>.str\<close> accessor of an index: only for labels that are strings; the integer
  labels of a \<open>RangeIndex\<close> raise
  \<^verbatim>\<open>AttributeError: Can only use .str accessor with string values\<close>.
\<close>

fun str_accessor :: "index \<Rightarrow> py_error + string list" where
  "str_accessor (Index names) = Inr names"
| "str_accessor (RangeIndex n) = Inl AttributeError"

text \<open>\<^verbatim>\<open>str.strip()\<close>, with the whitespace characters of ASCII.\<close>

definition is_space :: "char \<Rightarrow> bool" where
  "is_space c = (c \<in> set [CHR '' '', CHR 0x09, CHR 0x0A, CHR 0x0B, CHR 0x0C, CHR 0x0D,
                          CHR 0x1C, CHR 0x1D, CHR 0x1E, CHR 0x1F])"

definition str_strip :: "string \<Rightarrow> string" where
  "str_strip s = rev (dropWhile is_space (rev (dropWhile is_space s)))"

text \<open>
  \<^verbatim>\<open>str.replace(old, new)\<close> for a nonempty \<open>old\<close>: the occurrences are found from the
  left and do not overlap.
\<close>

function str_replace :: "string \<Rightarrow> string \<Rightarrow> string \<Rightarrow> string" where
  "str_replace old new [] = []"
| "str_replace old new (c # cs) =
     (if old \<noteq> [] \<and> take (length old) (c # cs) = old
      then new @ str_replace old new (drop (length old) (c # cs))
      else c # str_replace old new cs)"
  by pat_completeness auto
termination
  by (relation "measure (\<lambda>(old, new, s). length s)") auto

text \<open>Line 68: the new column labels.\<close>

definition clean_columns :: "string list \<Rightarrow> string list" where
  "clean_columns names =
     map (\<lambda>c. str_replace '' '' ''_'' (str_replace arrow_down [] (str_strip c))) names"

definition numeric_cols :: "string list" where
  "numeric_cols =
     [''Market_Cap'', ''Close_Price'', ''1D_Return'', ''1M_Return'',
      ''6M_Return'', ''1Y_Return'', ''Volatility_vs_Nifty'', ''Expense_Ratio'']"

text \<open>
  \<^verbatim>\<open>pd.to_numeric(..., errors='coerce')\<close> on one cell. \<open>parse_float\<close> is the parser of
  the library for a nonempty string: the number the string denotes, or \<open>None\<close> when it
  denotes none. A number stays, a bool counts as 1 or 0, and everything else (the empty
  string, a list, a dict, \<^verbatim>\<open>None\<close>, NaN) becomes NaN.
\<close>

fun to_numeric :: "(string \<Rightarrow> 'n option) \<Rightarrow> 'n::{zero,one} cell \<Rightarrow> 'n cell" where
  "to_numeric parse_float (Val (JNum x)) = Val (JNum x)"
| "to_numeric parse_float (Val (JBool b)) = Val (JNum (if b then 1 else 0))"
| "to_numeric parse_float (Val (JStr s)) =
     (if s = [] then NaN
      else case parse_float s of None \<Rightarrow> NaN | Some x \<Rightarrow> Val (JNum x))"
| "to_numeric parse_float _ = NaN"

text \<open>The position of a label among the column labels.\<close>

fun index_of :: "'a \<Rightarrow> 'a list \<Rightarrow> nat option" where
  "index_of x [] = None"
| "index_of x (y # ys) = (if x = y then Some 0 else map_option Suc (index_of x ys))"

definition get_loc :: "index \<Rightarrow> string \<Rightarrow> py_error + nat" where
  "get_loc ix col =
     (case ix of
        RangeIndex n \<Rightarrow> Inl (KeyError col)
      | Index names \<Rightarrow>
          (case index_of col names of None \<Rightarrow> Inl (KeyError col) | Some i \<Rightarrow> Inr i))"

text \<open>The cell of a row in the column at position \<open>i\<close>.\<close>

definition cell_at :: "'n cell list \<Rightarrow> nat \<Rightarrow> 'n cell" where
  "cell_at r i = (if i < length r then r ! i else NaN)"

text \<open>
  Line 74, \<^verbatim>\<open>df[col] = pd.to_numeric(df[col], errors='coerce')\<close>: reading a column
  that the frame does not have raises \<^verbatim>\<open>KeyError\<close>.
\<close>

definition coerce_column ::
  "(string \<Rightarrow> 'n option) \<Rightarrow> 'n::{zero,one} data_frame \<Rightarrow> string \<Rightarrow> py_error + 'n data_frame" where
  "coerce_column parse_float df col =
     bind_e (get_loc (columns df) col) (\<lambda>i.
       Inr (df\<lparr>rows :=
         map (\<lambda>lr. (fst lr, (snd lr)[i := to_numeric parse_float (cell_at (snd lr) i)]))
           (rows df)\<rparr>))"

text \<open>Lines 73 and 74: the loop over the numeric columns.\<close>

fun coerce_columns ::
  "(string \<Rightarrow> 'n option) \<Rightarrow> 'n::{zero,one} data_frame \<Rightarrow> string list \<Rightarrow> py_error + 'n data_frame" where
  "coerce_columns parse_float df [] = Inr df"
| "coerce_columns parse_float df (col # cols) =
     bind_e (coerce_column parse_float df col) (\<lambda>df'. coerce_columns parse_float df' cols)"

text \<open>Lines 67 to 75: the normalization of a frame.\<close>

definition normalize ::
  "(string \<Rightarrow> 'n option) \<Rightarrow> 'n::{zero,one} data_frame \<Rightarrow> py_error + 'n data_frame" where
  "normalize parse_float df =
     (let df1 = dropna df in
      bind_e (str_accessor (columns df1)) (\<lambda>names.
      let df2 = df1\<lparr>columns := Index (clean_columns names)\<rparr> in
      bind_e (coerce_columns parse_float df2 numeric_cols) (\<lambda>df3.
      Inr (dropna df3))))"

text \<open>
  \<^verbatim>\<open>fetch_etf_data\<close>: the frame it returns, with the trace of what it did to the
  outside.
\<close>

definition fetch_etf_data ::
  "bool \<Rightarrow> (string \<Rightarrow> 'n option) \<Rightarrow> (int \<Rightarrow> py_error + 'n::{zero,one} response) \<Rightarrow>
     py_error + ('n data_frame \<times> event list)" where
  "fetch_etf_data pandas2 parse_float net =
     bind_e (fetch_all net) (\<lambda>s.
     bind_e (normalize parse_float (DataFrame_py pandas2 (all_data s))) (\<lambda>df.
     Inr (df, trace s)))"

section \<open>The derived views\<close>

text \<open>Lines 97 to 105: the metric labels of the select box and their columns.\<close>

definition metric_map :: "(string \<times> string) list" where
  "metric_map =
     [(''1 Day Return'', ''1D_Return''),
      (''30 Day Return'', ''1M_Return''),
      (''6 Month Return'', ''6M_Return''),
      (''1 Year Return'', ''1Y_Return'')]"

definition metric_col :: "string \<Rightarrow> py_error + string" where
  "metric_col selected_metric_label =
     (case map_of metric_map selected_metric_label of
        None \<Rightarrow> Inl (KeyError selected_metric_label)
      | Some col \<Rightarrow> Inr col)"

text \<open>
  \<^verbatim>\<open>st.slider(label, min_value, max_value, value)\<close> with one integer value, as Streamlit
  computes it: the bounds are first put in order and then widened so that they contain
  the default \<open>value\<close> (``ensure that min <= value <= max, adjusting the bounds as
  necessary''). The widget returns the default until the user moves the handle; \<open>pick\<close>
  is the position the user asks for, if any, and the handle stays within the bounds.
\<close>

definition slider :: "int \<Rightarrow> int \<Rightarrow> int \<Rightarrow> int option \<Rightarrow> int" where
  "slider min_value max_value val pick =
     (let lo = min min_value max_value;
          hi = max lo max_value;
          lo' = min val lo;
          hi' = max val hi
      in case pick of None \<Rightarrow> val | Some v \<Rightarrow> max lo' (min hi' v))"

text \<open>Line 107: \<^verbatim>\<open>top_n = st.sidebar.slider("Top/Bottom N ETFs", 10, len(df), 50)\<close>.\<close>

definition top_n :: "'n data_frame \<Rightarrow> int option \<Rightarrow> int" where
  "top_n df pick = slider 10 (int (length (rows df))) 50 pick"

text \<open>
  The value of a cell of a numeric column as a float: the number, or \<open>None\<close> for NaN. The
  program sorts and filters by the numeric columns of the normalized frame only, where
  every cell is a number.
\<close>

definition num_key :: "'n cell \<Rightarrow> 'n option" where
  "num_key c = (case c of Val (JNum x) \<Rightarrow> Some x | _ \<Rightarrow> None)"

text \<open>
  \<^verbatim>\<open>nargsort\<close> of pandas, which \<^verbatim>\<open>sort_values\<close> calls for one column: the positions of
  the numbers in sorted order, then the positions of the NaN. For a descending sort the
  numbers are reversed, sorted in ascending order, and the result is reversed again.
  \<open>argsort\<close> is \<^verbatim>\<open>numpy.argsort\<close> with \<^verbatim>\<open>kind='quicksort'\<close>: a permutation of the
  positions that sorts the keys; the library does not say in which order it leaves
  equal keys.
\<close>

definition nargsort :: "('n list \<Rightarrow> nat list) \<Rightarrow> 'n option list \<Rightarrow> bool \<Rightarrow> nat list" where
  "nargsort argsort items ascending =
     (let idx = [0..<length items];
          non_nan = List.map_filter (\<lambda>(i, v). map_option (Pair i) v) (zip idx items);
          nan_idx = map fst (filter (\<lambda>(i, v). v = None) (zip idx items));
          non_nan' = (if ascending then non_nan else rev non_nan);
          sorted_idx = map (\<lambda>j. fst (non_nan' ! j))
                         (filter (\<lambda>j. j < length non_nan') (argsort (map snd non_nan')));
          indexer = (if ascending then sorted_idx else rev sorted_idx)
      in indexer @ nan_idx)"

text \<open>\<^verbatim>\<open>df.sort_values(by=col, ascending=...)\<close>: the rows in the order of the indexer.\<close>

definition sort_values ::
  "('n list \<Rightarrow> nat list) \<Rightarrow> 'n data_frame \<Rightarrow> string \<Rightarrow> bool \<Rightarrow> py_error + 'n data_frame" where
  "sort_values argsort df col ascending =
     bind_e (get_loc (columns df) col) (\<lambda>i.
       Inr (df\<lparr>rows := map (\<lambda>j. rows df ! j)
              (nargsort argsort (map (\<lambda>lr. num_key (cell_at (snd lr) i)) (rows df))
                 ascending)\<rparr>))"

text \<open>\<^verbatim>\<open>df.head(n)\<close>: the first \<open>n\<close> rows; for a negative \<open>n\<close>, all but the last \<open>-n\<close>.\<close>

definition head_py :: "int \<Rightarrow> 'n data_frame \<Rightarrow> 'n data_frame" where
  "head_py n df =
     df\<lparr>rows := (if 0 \<le> n then take (nat n) (rows df)
                 else take (length (rows df) - nat (- n)) (rows df))\<rparr>"

text \<open>Lines 110 and 111.\<close>

definition top_df ::
  "('n list \<Rightarrow> nat list) \<Rightarrow> 'n data_frame \<Rightarrow> string \<Rightarrow> int \<Rightarrow> py_error + 'n data_frame" where
  "top_df argsort df col n =
     bind_e (sort_values argsort df col False) (\<lambda>sorted_df. Inr (head_py n sorted_df))"

definition under_df ::
  "('n list \<Rightarrow> nat list) \<Rightarrow> 'n data_frame \<Rightarrow> string \<Rightarrow> int \<Rightarrow> py_error + 'n data_frame" where
  "under_df argsort df col n =
     bind_e (sort_values argsort df col True) (\<lambda>sorted_df. Inr (head_py n sorted_df))"

text \<open>
  \<^verbatim>\<open>float(view[col].min())\<close> and \<^verbatim>\<open>float(view[col].max())\<close>: the least and the
  greatest number of the column, NaN (\<open>None\<close>) when the column has no number.
\<close>

definition series_min :: "'n::linorder data_frame \<Rightarrow> string \<Rightarrow> py_error + 'n option" where
  "series_min df col =
     bind_e (get_loc (columns df) col) (\<lambda>i.
       Inr (case List.map_filter (\<lambda>lr. num_key (cell_at (snd lr) i)) (rows df) of
              [] \<Rightarrow> None
            | k # ks \<Rightarrow> Some (fold min ks k)))"

definition series_max :: "'n::linorder data_frame \<Rightarrow> string \<Rightarrow> py_error + 'n option" where
  "series_max df col =
     bind_e (get_loc (columns df) col) (\<lambda>i.
       Inr (case List.map_filter (\<lambda>lr. num_key (cell_at (snd lr) i)) (rows df) of
              [] \<Rightarrow> None
            | k # ks \<Rightarrow> Some (fold max ks k)))"

text \<open>
  The comparisons of a cell of a numeric column with a bound of a slider; a comparison
  with NaN is false.
\<close>

definition cell_ge :: "'n::linorder cell \<Rightarrow> 'n option \<Rightarrow> bool" where
  "cell_ge c b = (case (num_key c, b) of (Some x, Some y) \<Rightarrow> y \<le> x | _ \<Rightarrow> False)"

definition cell_le :: "'n::linorder cell \<Rightarrow> 'n option \<Rightarrow> bool" where
  "cell_le c b = (case (num_key c, b) of (Some x, Some y) \<Rightarrow> x \<le> y | _ \<Rightarrow> False)"

text \<open>
  \<^verbatim>\<open>st.slider(label, min_value, max_value, (min_value, max_value))\<close> with floats, as
  the program calls it: a slider with two handles whose default is the pair of its
  bounds, which are the minimum and the maximum of a column. Streamlit refuses bounds
  that are equal (\<^verbatim>\<open>StreamlitAPIException\<close>: the minimum must be less than the
  maximum). The widget returns the default until the user moves a handle; \<open>pick\<close> is the
  pair of positions the user asks for, if any, and the handles stay within the bounds.
  A bound that is NaN (the column of a view without rows) is equal to nothing, so the
  slider is not refused, and comes back as it is.
\<close>

definition range_slider ::
  "'n::linorder option \<Rightarrow> 'n option \<Rightarrow> ('n \<times> 'n) option \<Rightarrow> py_error + 'n option \<times> 'n option" where
  "range_slider min_value max_value pick =
     (case (min_value, max_value) of
        (Some lo, Some hi) \<Rightarrow>
          if lo = hi then Inl StreamlitAPIException
          else Inr (case pick of
                      None \<Rightarrow> (Some lo, Some hi)
                    | Some (a, b) \<Rightarrow> (Some (max lo (min hi a)), Some (max lo (min hi b))))
      | _ \<Rightarrow> Inr (min_value, max_value))"

text \<open>Lines 119 to 122: the two sliders of the top view.\<close>

definition top_expense ::
  "'n::linorder data_frame \<Rightarrow> ('n \<times> 'n) option \<Rightarrow> py_error + 'n option \<times> 'n option" where
  "top_expense view pick =
     bind_e (series_min view ''Expense_Ratio'') (\<lambda>lo.
     bind_e (series_max view ''Expense_Ratio'') (\<lambda>hi.
     range_slider lo hi pick))"

definition top_mcap ::
  "'n::linorder data_frame \<Rightarrow> ('n \<times> 'n) option \<Rightarrow> py_error + 'n option \<times> 'n option" where
  "top_mcap view pick =
     bind_e (series_min view ''Market_Cap'') (\<lambda>lo.
     bind_e (series_max view ''Market_Cap'') (\<lambda>hi.
     range_slider lo hi pick))"

text \<open>
  Lines 119 to 127: the two sliders, then the rows of the top view within the two
  inclusive ranges that the sliders return. \<open>pick_expense\<close> and \<open>pick_mcap\<close> are what
  the user does to the sliders.
\<close>

definition top_filtered ::
  "'n::linorder data_frame \<Rightarrow> ('n \<times> 'n) option \<Rightarrow> ('n \<times> 'n) option \<Rightarrow>
     py_error + 'n data_frame" where
  "top_filtered view pick_expense pick_mcap =
     bind_e (top_expense view pick_expense) (\<lambda>expense.
     bind_e (top_mcap view pick_mcap) (\<lambda>mcap.
     bind_e (get_loc (columns view) ''Expense_Ratio'') (\<lambda>i.
     bind_e (get_loc (columns view) ''Market_Cap'') (\<lambda>j.
       Inr (view\<lparr>rows := filter (\<lambda>lr.
              cell_ge (cell_at (snd lr) i) (fst expense) \<and> cell_le (cell_at (snd lr) i) (snd expense)
              \<and> cell_ge (cell_at (snd lr) j) (fst mcap) \<and> cell_le (cell_at (snd lr) j) (snd mcap))
            (rows view)\<rparr>)))))"

text \<open>Lines 138 to 141: the two sliders of the bottom view.\<close>

definition under_expense ::
  "'n::linorder data_frame \<Rightarrow> ('n \<times> 'n) option \<Rightarrow> py_error + 'n option \<times> 'n option" where
  "under_expense view pick =
     bind_e (series_min view ''Expense_Ratio'') (\<lambda>lo.
     bind_e (series_max view ''Expense_Ratio'') (\<lambda>hi.
     range_slider lo hi pick))"

definition under_mcap ::
  "'n::linorder data_frame \<Rightarrow> ('n \<times> 'n) option \<Rightarrow> py_error + 'n option \<times> 'n option" where
  "under_mcap view pick =
     bind_e (series_min view ''Market_Cap'') (\<lambda>lo.
     bind_e (series_max view ''Market_Cap'') (\<lambda>hi.
     range_slider lo hi pick))"

text \<open>Lines 138 to 146: the same for the bottom view.\<close>

definition under_filtered ::
  "'n::linorder data_frame \<Rightarrow> ('n \<times> 'n) option \<Rightarrow> ('n \<times> 'n) option \<Rightarrow>
     py_error + 'n data_frame" where
  "under_filtered view pick_expense pick_mcap =
     bind_e (under_expense view pick_expense) (\<lambda>expense.
     bind_e (under_mcap view pick_mcap) (\<lambda>mcap.
     bind_e (get_loc (columns view) ''Expense_Ratio'') (\<lambda>i.
     bind_e (get_loc (columns view) ''Market_Cap'') (\<lambda>j.
       Inr (view\<lparr>rows := filter (\<lambda>lr.
              cell_ge (cell_at (snd lr) i) (fst expense) \<and> cell_le (cell_at (snd lr) i) (snd expense)
              \<and> cell_ge (cell_at (snd lr) j) (fst mcap) \<and> cell_le (cell_at (snd lr) j) (snd mcap))
            (rows view)\<rparr>)))))"

text \<open>
  The contract of \<^verbatim>\<open>numpy.argsort\<close>: the result is a permutation of the positions of
  its argument that puts the keys in ascending order.
\<close>

definition argsort_ok :: "('n::linorder list \<Rightarrow> nat list) \<Rightarrow> bool" where
  "argsort_ok argsort =
     (\<forall>xs. distinct (argsort xs) \<and> set (argsort xs) = {0..<length xs}
          \<and> sorted (map (\<lambda>j. xs ! j) (argsort xs)))"

text \<open>A sort that conforms to the contract and keeps equal keys in their order.\<close>

definition argsort_stable :: "'n::linorder list \<Rightarrow> nat list" where
  "argsort_stable xs = map snd (sort_key fst (zip xs [0..<length xs]))"

section \<open>Notions for the statements and proofs\<close>

text \<open>
  The column labels of a frame made from rows of \<open>build_row\<close>, and what line 68 makes of them.
\<close>

definition raw_columns :: "string list" where
  "raw_columns = [''Name'', ''Sub-Sector'', arrow_down @ ''Market Cap'', ''Close Price'',
     ''1D Return'', ''1M Return'', ''6M Return'', ''1Y Return'', ''Volatility vs Nifty'', ''Expense Ratio'']"

definition final_columns :: "string list" where
  "final_columns = [''Name'', ''Sub-Sector'', ''Market_Cap'', ''Close_Price'',
     ''1D_Return'', ''1M_Return'', ''6M_Return'', ''1Y_Return'', ''Volatility_vs_Nifty'', ''Expense_Ratio'']"

text \<open>
  The cells of a row after the coercion of the columns at the positions \<open>js\<close>.
\<close>

definition coerce_cells :: "(string \<Rightarrow> 'n option) \<Rightarrow> nat list \<Rightarrow> 'n::{zero,one} cell list \<Rightarrow> 'n cell list" where
  "coerce_cells p js r = foldl (\<lambda>r i. r[i := to_numeric p (cell_at r i)]) r js"

text \<open>The row labels of a frame, in the order of the rows.\<close>

definition labels :: "'n data_frame \<Rightarrow> nat list" where
  "labels df = map fst (rows df)"

text \<open>The test of \<open>dropna\<close> on a row.\<close>

definition keeps :: "nat \<times> 'n cell list \<Rightarrow> bool" where
  "keeps lr = (\<not> list_ex isna (snd lr))"

text \<open>
  The result of the normalization for a frame with the column labels of \<open>build_row\<close>
  (lemma \<open>normalize_raw\<close>).
\<close>

definition normalized :: "(string \<Rightarrow> 'n option) \<Rightarrow> 'n::{zero,one} data_frame \<Rightarrow> 'n data_frame" where
  "normalized p df =
     df\<lparr>columns := Index final_columns,
        rows := filter keeps (map (\<lambda>lr. (fst lr, coerce_cells p [2, 3, 4, 5, 6, 7, 8, 9] (snd lr)))
                  (filter keeps (rows df)))\<rparr>"

text \<open>
  A row with the keys of \<open>build_row\<close>, and the cells that the frame holds for it.
\<close>

definition keyed :: "'n row \<Rightarrow> bool" where
  "keyed d = (map fst d = raw_columns)"

definition cells_of :: "'n row \<Rightarrow> 'n cell list" where
  "cells_of d = map (\<lambda>kv. Val (snd kv)) d"

text \<open>Whether the cell of a row in the column \<open>col\<close> of a frame holds a number.\<close>

definition numeric_cell :: "'n data_frame \<Rightarrow> 'n cell list \<Rightarrow> string \<Rightarrow> bool" where
  "numeric_cell df r col =
     (case get_loc (columns df) col of
        Inl e \<Rightarrow> False
      | Inr i \<Rightarrow> (case cell_at r i of Val (JNum x) \<Rightarrow> True | _ \<Rightarrow> False))"

text \<open>The keys that \<open>build_row\<close> reads in \<^verbatim>\<open>advancedRatios\<close>, in the order of the columns.\<close>

definition ratio_keys :: "string list" where
  "ratio_keys = [''subindustry'', ''mrktCapf'', ''lastPrice'', ''pr1d'', ''4wpct'', ''26wpct'',
     ''52wpct'', ''12mVolN'', ''expenseRatio'']"

text \<open>
  The ten fields of a result as the response has them, in the order of the columns:
  \<open>None\<close> for a key that is absent, \<open>Some JNull\<close> for an explicit \<^verbatim>\<open>null\<close>,
  \<open>Some JNaN\<close> for the literal \<^verbatim>\<open>NaN\<close>.
\<close>

definition field_values :: "(string \<times> 'n json) list \<Rightarrow> (string \<times> 'n json) list \<Rightarrow> 'n json option list" where
  "field_values info ratios = map_of info ''name'' # map (map_of ratios) ratio_keys"

text \<open>The defaults of lines 50 to 59, in the order of the columns.\<close>

definition field_defaults :: "'n json list" where
  "field_defaults = [JStr [], JStr [], JStr ''NA'', JStr ''NA'', JStr ''NA'', JStr ''NA'',
     JStr ''NA'', JStr ''NA'', JStr ''NA'', JStr ''NA'']"

text \<open>
  The value of \<^verbatim>\<open>d.get(k, default)\<close> from the result of the lookup.
\<close>

definition or_default :: "'n json option \<Rightarrow> 'n json \<Rightarrow> 'n json" where
  "or_default v d = (case v of None \<Rightarrow> d | Some x \<Rightarrow> x)"






text \<open>
  The number that the coercion of line 74 reads in a value of the response: a number
  is itself, a bool is 1 or 0, a nonempty string is what the parser makes of it, and
  nothing else is a number.
\<close>

fun number_of :: "(string \<Rightarrow> 'n option) \<Rightarrow> 'n::{zero,one} json \<Rightarrow> 'n option" where
  "number_of p (JNum x) = Some x"
| "number_of p (JBool b) = Some (if b then 1 else 0)"
| "number_of p (JStr t) = (if t = [] then None else p t)"
| "number_of p v = None"

text \<open>
  The numbers of a column of a frame, in the order of the rows (NaN left out; a numeric
  column of a normalized frame has none).
\<close>

definition metric_values :: "'n data_frame \<Rightarrow> string \<Rightarrow> 'n list" where
  "metric_values df col =
     (case get_loc (columns df) col of
        Inl e \<Rightarrow> []
      | Inr i \<Rightarrow> List.map_filter (\<lambda>lr. num_key (cell_at (snd lr) i)) (rows df))"

text \<open>
  What the normalization establishes: the cleaned column labels, row labels that
  differ, and a number in every numeric column of every row.
\<close>

definition normalized_frame :: "'n data_frame \<Rightarrow> bool" where
  "normalized_frame df =
     (columns df = Index final_columns \<and> distinct (labels df)
      \<and> list_all (\<lambda>lr. list_all (numeric_cell df (snd lr)) numeric_cols) (rows df))"

text \<open>The indexers of the two sorts for a column of numbers.\<close>

definition asc_indexer :: "('n list \<Rightarrow> nat list) \<Rightarrow> 'n list \<Rightarrow> nat list" where
  "asc_indexer argsort ks = argsort ks"

definition desc_indexer :: "('n list \<Rightarrow> nat list) \<Rightarrow> 'n list \<Rightarrow> nat list" where
  "desc_indexer argsort ks = rev (map (\<lambda>j. length ks - Suc j) (argsort (rev ks)))"

section \<open>Examples\<close>

text \<open>A result of the endpoint, for the examples: a fund with its name and market cap.\<close>

definition example_ratios :: "int json \<Rightarrow> (string \<times> int json) list" where
  "example_ratios mcap =
     [(''subindustry'', JStr ''E_G''), (''mrktCapf'', mcap), (''lastPrice'', JNum 10),
      (''pr1d'', JNum 1), (''4wpct'', JNum 2), (''26wpct'', JNum 3),
      (''52wpct'', JNum 4), (''12mVolN'', JNum 5), (''expenseRatio'', JNum 1)]"

definition example_item :: "int json \<Rightarrow> int json \<Rightarrow> int json" where
  "example_item name mcap =
     JObj [(''stock'', JObj
       [(''info'', JObj [(''name'', name)]),
        (''advancedRatios'', JObj (example_ratios mcap))])]"

text \<open>
  An endpoint for the examples: the first page has three funds, the second with the
  market cap \<^verbatim>\<open>"NA"\<close> and the third with the name \<^verbatim>\<open>null\<close>; every other page fails
  with status 500.
\<close>

definition example_net :: "int \<Rightarrow> py_error + int response" where
  "example_net offset =
     (if offset = 0 then
        Inr \<lparr>status_code = 200,
             json_body = Some (JObj [(''data'', JObj [(''results'',
               JArr [example_item (JStr ''A'') (JNum 100),
                     example_item (JStr ''B'') (JStr ''NA''),
                     example_item JNull (JNum 300)])])])\<rparr>
      else Inr \<lparr>status_code = 500, json_body = None\<rparr>)"

definition example_rows :: "int row list" where
  "example_rows =
     map (\<lambda>(name, mcap).
       [(''Name'', name), (''Sub-Sector'', JStr ''E_G''), (arrow_down @ ''Market Cap'', mcap),
        (''Close Price'', JNum 10), (''1D Return'', JNum 1), (''1M Return'', JNum 2),
        (''6M Return'', JNum 3), (''1Y Return'', JNum 4), (''Volatility vs Nifty'', JNum 5),
        (''Expense Ratio'', JNum 1)])
       [(JStr ''A'', JNum 100), (JStr ''B'', JStr ''NA''), (JNull, JNum 300)]"

definition example_trace :: "event list" where
  "example_trace =
     [Post 0, Sleep 1] @
     concat (map (\<lambda>offset. [Post offset, StError offset 500, Sleep 1])
       [20, 40, 60, 80, 100, 120, 140, 160, 180, 200, 220, 240, 260])"

text \<open>The frame that \<^verbatim>\<open>fetch_etf_data\<close> returns for the example endpoint.\<close>

definition example_frame :: "int data_frame" where
  "example_frame =
     \<lparr>columns = Index final_columns,
      rows = [(0, [Val (JStr ''A''), Val (JStr ''E_G''), Val (JNum 100), Val (JNum 10),
                 Val (JNum 1), Val (JNum 2), Val (JNum 3), Val (JNum 4), Val (JNum 5),
                 Val (JNum 1)])]\<rparr>"


text \<open>A frame of \<open>n\<close> funds that differ in their labels only, for the examples.\<close>

definition uniform_frame :: "nat \<Rightarrow> int data_frame" where
  "uniform_frame n =
     \<lparr>columns = Index final_columns,
      rows = map (\<lambda>k. (k, [Val (JStr ''F''), Val (JStr ''E_G''), Val (JNum 100), Val (JNum 10),
                 Val (JNum 1), Val (JNum 2), Val (JNum 3), Val (JNum 4), Val (JNum 5),
                 Val (JNum 1)])) [0..<n]\<rparr>"

text \<open>
  A frame of \<open>n\<close> funds for the examples; the fund at position \<open>k\<close> has the one-year
  return \<open>f k\<close>.
\<close>

definition fund_frame :: "(nat \<Rightarrow> int) \<Rightarrow> nat \<Rightarrow> int data_frame" where
  "fund_frame f n =
     \<lparr>columns = Index final_columns,
      rows = map (\<lambda>k. (k, [Val (JStr ''F''), Val (JStr ''E_G''), Val (JNum 100), Val (JNum 10),
                 Val (JNum 1), Val (JNum 2), Val (JNum 3), Val (JNum (f k)), Val (JNum 5),
                 Val (JNum 1)])) [0..<n]\<rparr>"

text \<open>
  A second endpoint for the examples: the first page has three funds, the second with
  the literal \<^verbatim>\<open>NaN\<close> as its market cap; every other page fails with status 500.
\<close>

definition fund_item :: "string \<Rightarrow> int json \<Rightarrow> int \<Rightarrow> int \<Rightarrow> int json" where
  "fund_item name mcap ret expense =
     JObj [(''stock'', JObj
       [(''info'', JObj [(''name'', JStr name)]),
        (''advancedRatios'', JObj
          [(''subindustry'', JStr ''E_Q''), (''mrktCapf'', mcap), (''lastPrice'', JNum 10),
           (''pr1d'', JNum 1), (''4wpct'', JNum 2), (''26wpct'', JNum 3),
           (''52wpct'', JNum ret), (''12mVolN'', JNum 5), (''expenseRatio'', JNum expense)])])]"

definition nan_net :: "int \<Rightarrow> py_error + int response" where
  "nan_net offset =
     (if offset = 0 then
        Inr \<lparr>status_code = 200,
             json_body = Some (JObj [(''data'', JObj [(''results'',
               JArr [fund_item ''P'' (JNum 100) 4 1,
                     fund_item ''Q'' JNaN 5 2,
                     fund_item ''R'' (JNum 300) 6 3])])])\<rparr>
      else Inr \<lparr>status_code = 500, json_body = None\<rparr>)"

definition fund_row :: "string \<Rightarrow> int json \<Rightarrow> int \<Rightarrow> int \<Rightarrow> int row" where
  "fund_row name mcap ret expense =
     [(''Name'', JStr name), (''Sub-Sector'', JStr ''E_Q''), (arrow_down @ ''Market Cap'', mcap),
      (''Close Price'', JNum 10), (''1D Return'', JNum 1), (''1M Return'', JNum 2),
      (''6M Return'', JNum 3), (''1Y Return'', JNum ret), (''Volatility vs Nifty'', JNum 5),
      (''Expense Ratio'', JNum expense)]"

definition nan_rows :: "int row list" where
  "nan_rows =
     [fund_row ''P'' (JNum 100) 4 1, fund_row ''Q'' JNaN 5 2, fund_row ''R'' (JNum 300) 6 3]"

text \<open>The frame that \<^verbatim>\<open>fetch_etf_data\<close> returns for the second endpoint.\<close>

definition nan_frame :: "int data_frame" where
  "nan_frame =
     \<lparr>columns = Index final_columns,
      rows = [(0, [Val (JStr ''P''), Val (JStr ''E_Q''), Val (JNum 100), Val (JNum 10),
                 Val (JNum 1), Val (JNum 2), Val (JNum 3), Val (JNum 4), Val (JNum 5),
                 Val (JNum 1)]),
              (2, [Val (JStr ''R''), Val (JStr ''E_Q''), Val (JNum 300), Val (JNum 10),
                 Val (JNum 1), Val (JNum 2), Val (JNum 3), Val (JNum 6), Val (JNum 5),
                 Val (JNum 3)])]\<rparr>"

section \<open>Properties of the fetch loop\<close>

lemma range_py_configured:
  "range_py 0 total_results count =
     [0, 20, 40, 60, 80, 100, 120, 140, 160, 180, 200, 220, 240, 260]"
  by (simp add: range_py.simps total_results_def count_def)

lemma posts_append: "posts (es @ fs) = posts es @ posts fs"
  by (induction es rule: posts.induct) simp_all

lemma fetch_all_Inr: "fetch_all net = Inr s \<longleftrightarrow> fetch_run net = (s, None)"
  by (auto simp: fetch_all_def split: prod.splits option.splits)

lemma fetch_page_posts:
  "fetch_page net s offset = (s', None) \<Longrightarrow> posts (trace s') = posts (trace s) @ [offset]"
  by (auto simp: fetch_page_def Let_def posts_append
      split: sum.splits if_splits prod.splits option.splits)

lemma fetch_loop_posts:
  "fetch_loop net s offsets = (s', None) \<Longrightarrow> posts (trace s') = posts (trace s) @ offsets"
proof (induction offsets arbitrary: s)
  case Nil
  then show ?case by simp
next
  case (Cons offset offsets)
  then show ?case
    by (auto split: prod.splits option.splits dest!: fetch_page_posts)
qed

text \<open>
  Claim C1. With the configured total of 271 records and page size 20 the loop runs over
  the offsets 0, 20, 40, ..., 260: fourteen of them, which is the ceiling of 271 / 20,
  in increasing order, the last one (260) below the total; and the requests of a run
  of the loop that reaches its end are exactly these, in this order.
\<close>

theorem fetch_offsets_configured:
  "range_py 0 total_results count =
     [0, 20, 40, 60, 80, 100, 120, 140, 160, 180, 200, 220, 240, 260]
   \<and> length (range_py 0 total_results count) = 14
   \<and> int (length (range_py 0 total_results count)) =
       \<lceil>real_of_int total_results / real_of_int count\<rceil>
   \<and> sorted_wrt (<) (range_py 0 total_results count)
   \<and> last (range_py 0 total_results count) = 260
   \<and> last (range_py 0 total_results count) < total_results
   \<and> (\<forall>net s. fetch_all net = Inr s \<longrightarrow>
         posts (trace s) = [0, 20, 40, 60, 80, 100, 120, 140, 160, 180, 200, 220, 240, 260])"
proof -
  have ceil: "\<lceil>real_of_int total_results / real_of_int count\<rceil> = 14"
    by (simp add: total_results_def count_def)
  have run: "posts (trace s) = [0, 20, 40, 60, 80, 100, 120, 140, 160, 180, 200, 220, 240, 260]"
    if "fetch_all net = Inr s" for net and s :: "'a fetch_state"
    using fetch_loop_posts [OF that [unfolded fetch_all_Inr fetch_run_def]]
    by (simp add: range_py_configured)
  show ?thesis
    unfolding range_py_configured ceil
    using run by (simp add: total_results_def)
qed

theorem fetch_offsets_configured_witness:
  "\<exists>s. fetch_all (\<lambda>offset. Inr \<lparr>status_code = 500, json_body = (None :: int json option)\<rparr>) = Inr s
       \<and> posts (trace s) = [0, 20, 40, 60, 80, 100, 120, 140, 160, 180, 200, 220, 240, 260]"
proof -
  obtain s where s:
    "fetch_all (\<lambda>offset. Inr \<lparr>status_code = 500, json_body = (None :: int json option)\<rparr>) = Inr s"
    by (simp add: fetch_all_def fetch_run_def range_py_configured fetch_page_def Let_def)
  with fetch_offsets_configured show ?thesis
    by blast
qed

section \<open>Properties of the normalization\<close>

lemma clean_raw_columns: "clean_columns raw_columns = final_columns"
  by (simp add: clean_columns_def raw_columns_def final_columns_def arrow_down_def str_strip_def is_space_def)

lemma clean_final_columns: "clean_columns final_columns = final_columns"
  by (simp add: clean_columns_def final_columns_def arrow_down_def str_strip_def is_space_def)

lemma to_numeric_idem: "to_numeric p (to_numeric p c) = to_numeric p c"
  by (induction p c rule: to_numeric.induct) (simp_all split: option.splits)

lemma to_numeric_cases: "to_numeric p c = NaN \<or> (\<exists>x. to_numeric p c = Val (JNum x))"
  by (induction p c rule: to_numeric.induct) (simp_all split: option.splits)

lemma length_coerce_cells [simp]: "length (coerce_cells p js r) = length r"
  unfolding coerce_cells_def by (induction js arbitrary: r) simp_all

lemma coerce_cells_Cons:
  "coerce_cells p (i # js) r = coerce_cells p js (r[i := to_numeric p (cell_at r i)])"
  by (simp add: coerce_cells_def)

lemma coerce_cells_Nil [simp]: "coerce_cells p [] r = r"
  by (simp add: coerce_cells_def)

lemma nth_coerce_cells:
  "j < length r \<Longrightarrow>
     coerce_cells p js r ! j = (if j \<in> set js then to_numeric p (r ! j) else r ! j)"
proof (induction js arbitrary: r)
  case Nil
  then show ?case by simp
next
  case (Cons i js)
  then show ?case
    by (auto simp: coerce_cells_Cons cell_at_def nth_list_update to_numeric_idem)
qed

lemma coerce_cells_idem: "coerce_cells p js (coerce_cells p js r) = coerce_cells p js r"
  by (rule nth_equalityI) (simp_all add: nth_coerce_cells to_numeric_idem)

lemma keeps_eq: "(\<lambda>lr. \<not> list_ex isna (snd lr)) = keeps"
  by (simp add: keeps_def fun_eq_iff)

lemma dropna_eq: "dropna df = df\<lparr>rows := filter keeps (rows df)\<rparr>"
  by (simp add: dropna_def keeps_eq)

lemma dropna_simps [simp]:
  "columns (dropna df) = columns df"
  "rows (dropna df) = filter keeps (rows df)"
  by (simp_all add: dropna_eq)

lemma coerce_columns_found:
  "list_all2 (\<lambda>c i. get_loc (columns df) c = Inr i) cols js \<Longrightarrow>
     coerce_columns p df cols =
       Inr (df\<lparr>rows := map (\<lambda>lr. (fst lr, coerce_cells p js (snd lr))) (rows df)\<rparr>)"
proof (induction cols arbitrary: js df)
  case Nil
  then show ?case by simp
next
  case (Cons c cols)
  from Cons.prems obtain i js' where js: "js = i # js'"
    and i: "get_loc (columns df) c = Inr i"
    and rest: "list_all2 (\<lambda>c i. get_loc (columns df) c = Inr i) cols js'"
    by (auto simp: list_all2_Cons1)
  let ?df' = "df\<lparr>rows := map (\<lambda>lr. (fst lr, (snd lr)[i := to_numeric p (cell_at (snd lr) i)])) (rows df)\<rparr>"
  have "list_all2 (\<lambda>c i. get_loc (columns ?df') c = Inr i) cols js'"
    using rest by simp
  from Cons.IH [OF this] show ?case
    by (simp add: js i coerce_column_def bind_e_def coerce_cells_Cons o_def)
qed

lemma get_loc_final:
  "list_all2 (\<lambda>c i. get_loc (Index final_columns) c = Inr i) numeric_cols [2, 3, 4, 5, 6, 7, 8, 9]"
  by (simp add: get_loc_def final_columns_def numeric_cols_def)

lemma normalize_raw:
  assumes "columns df = Index raw_columns"
  shows "normalize p df = Inr (normalized p df)"
proof -
  let ?df2 = "(dropna df)\<lparr>columns := Index final_columns\<rparr>"
  have "list_all2 (\<lambda>c i. get_loc (columns ?df2) c = Inr i) numeric_cols [2, 3, 4, 5, 6, 7, 8, 9]"
    using get_loc_final by simp
  from coerce_columns_found [OF this, of p] show ?thesis
    using assms
    by (simp add: normalize_def bind_e_def clean_raw_columns normalized_def dropna_eq)
qed

lemma normalize_final:
  assumes "columns df = Index final_columns"
  shows "normalize p df = Inr (normalized p df)"
proof -
  let ?df2 = "(dropna df)\<lparr>columns := Index final_columns\<rparr>"
  have "list_all2 (\<lambda>c i. get_loc (columns ?df2) c = Inr i) numeric_cols [2, 3, 4, 5, 6, 7, 8, 9]"
    using get_loc_final by simp
  from coerce_columns_found [OF this, of p] show ?thesis
    using assms
    by (simp add: normalize_def bind_e_def clean_final_columns normalized_def dropna_eq)
qed

lemma normalize_empty:
  "normalize p (DataFrame_py pandas2 []) = Inl (if pandas2 then AttributeError else KeyError ''Market_Cap'')"
  by (simp add: normalize_def DataFrame_py_def dropna_def bind_e_def clean_columns_def
      numeric_cols_def coerce_column_def get_loc_def)

lemma keeps_coerce_idem:
  "keeps (l, coerce_cells p js r) \<Longrightarrow> keeps (l, coerce_cells p js (coerce_cells p js r))"
  by (simp add: coerce_cells_idem)

lemma normalized_idem: "normalized p (normalized p df) = normalized p df"
proof -
  have "filter keeps (map (\<lambda>lr. (fst lr, coerce_cells p js (snd lr)))
          (filter keeps (filter keeps (map (\<lambda>lr. (fst lr, coerce_cells p js (snd lr))) xs))))
        = filter keeps (map (\<lambda>lr. (fst lr, coerce_cells p js (snd lr))) xs)" for js and xs :: "(nat \<times> 'a cell list) list"
    by (induction xs) (auto simp: coerce_cells_idem keeps_def)
  then show ?thesis
    by (simp add: normalized_def)
qed

lemma distinct_raw_columns: "distinct raw_columns"
  by (simp add: raw_columns_def arrow_down_def)

lemma build_row_keyed: "build_row item = Inr r \<Longrightarrow> keyed r"
  by (auto simp: build_row_def bind_e_def keyed_def raw_columns_def split: sum.splits)

lemma append_rows_keyed:
  "append_rows acc items = (out, err) \<Longrightarrow> list_all keyed acc \<Longrightarrow> list_all keyed out"
proof (induction items arbitrary: acc)
  case Nil
  then show ?case by simp
next
  case (Cons item items)
  then show ?case
    by (auto split: sum.splits dest: build_row_keyed)
qed

lemma fetch_page_keyed:
  "fetch_page net s offset = (s', err) \<Longrightarrow> list_all keyed (all_data s) \<Longrightarrow>
     list_all keyed (all_data s')"
  by (auto simp: fetch_page_def Let_def
      split: sum.splits if_splits prod.splits option.splits dest: append_rows_keyed)

lemma fetch_loop_keyed:
  "fetch_loop net s offsets = (s', err) \<Longrightarrow> list_all keyed (all_data s) \<Longrightarrow>
     list_all keyed (all_data s')"
proof (induction offsets arbitrary: s)
  case Nil
  then show ?case by simp
next
  case (Cons offset offsets)
  then show ?case
    by (auto split: prod.splits option.splits dest: fetch_page_keyed)
qed

lemma fetch_all_keyed: "fetch_all net = Inr s \<Longrightarrow> list_all keyed (all_data s)"
  unfolding fetch_all_Inr fetch_run_def by (drule fetch_loop_keyed) simp_all

lemma map_of_own_keys:
  "distinct (map fst d) \<Longrightarrow>
     map (\<lambda>k. case map_of d k of None \<Rightarrow> NaN | Some v \<Rightarrow> Val v) (map fst d) = map (\<lambda>kv. Val (snd kv)) d"
  by (induction d) (auto simp: rev_image_eqI)

lemma DataFrame_py_keyed:
  assumes "data \<noteq> []" and "list_all keyed data"
  shows "DataFrame_py pandas2 data =
           \<lparr>columns = Index raw_columns, rows = zip [0..<length data] (map cells_of data)\<rparr>"
proof -
  obtain d0 ds where data: "data = d0 # ds"
    using assms(1) by (cases data) auto
  have k0: "map fst d0 = raw_columns"
    using assms(2) by (simp add: data keyed_def)
  have "map (\<lambda>k. case map_of d k of None \<Rightarrow> NaN | Some v \<Rightarrow> Val v) raw_columns = cells_of d"
    if "d \<in> set data" for d :: "'a row"
  proof -
    from that assms(2) have "map fst d = raw_columns"
      by (simp add: list_all_iff keyed_def)
    with map_of_own_keys [of d] distinct_raw_columns show ?thesis
      by (simp add: cells_of_def)
  qed
  then have rows_eq:
    "map (\<lambda>d. map (\<lambda>k. case map_of d k of None \<Rightarrow> NaN | Some v \<Rightarrow> Val v) raw_columns) data
      = map cells_of data"
    by simp
  have "DataFrame_py pandas2 data =
      \<lparr>columns = Index (map fst d0), rows = zip [0..<length data]
         (map (\<lambda>d. map (\<lambda>k. case map_of d k of None \<Rightarrow> NaN | Some v \<Rightarrow> Val v) (map fst d0)) data)\<rparr>"
    by (simp add: DataFrame_py_def data)
  then show ?thesis
    unfolding k0 rows_eq .
qed

lemma fetch_etf_data_cases:
  assumes "fetch_etf_data pandas2 p net = Inr (df, tr)"
  obtains s where "fetch_all net = Inr s" and "all_data s \<noteq> []" and "list_all keyed (all_data s)"
    and "tr = trace s"
    and "df = normalized p \<lparr>columns = Index raw_columns,
                rows = zip [0..<length (all_data s)] (map cells_of (all_data s))\<rparr>"
proof -
  from assms obtain s where s: "fetch_all net = Inr s"
    and n: "normalize p (DataFrame_py pandas2 (all_data s)) = Inr df" and tr: "tr = trace s"
    by (auto simp: fetch_etf_data_def bind_e_def split: sum.splits)
  have ne: "all_data s \<noteq> []"
    using n by (auto simp: normalize_empty)
  have k: "list_all keyed (all_data s)"
    using s by (rule fetch_all_keyed)
  from n show thesis
    using that [OF s ne k tr]
    by (simp add: DataFrame_py_keyed [OF ne k] normalize_raw)
qed

lemma columns_normalized [simp]: "columns (normalized p df) = Index final_columns"
  by (simp add: normalized_def)

lemma rows_normalized:
  "rows (normalized p df) =
     filter keeps (map (\<lambda>lr. (fst lr, coerce_cells p [2, 3, 4, 5, 6, 7, 8, 9] (snd lr)))
       (filter keeps (rows df)))"
  by (simp add: normalized_def)

text \<open>
  Claim C9. Normalization is idempotent on what \<^verbatim>\<open>fetch_etf_data\<close> returns: running
  lines 67 to 75 again on the returned frame raises nothing and gives the same frame,
  with the same column labels and the same rows (labels and cells) in the same order.
\<close>

theorem normalize_idempotent:
  assumes "fetch_etf_data pandas2 p net = Inr (df, tr)"
  shows "normalize p df = Inr df"
proof -
  from assms obtain df0 where "df = normalized p df0"
    by (rule fetch_etf_data_cases)
  then show ?thesis
    by (simp add: normalize_final normalized_idem)
qed

lemma no_records_raises:
  assumes "fetch_all net = Inr s" and "all_data s = []"
  shows "fetch_etf_data pandas2 p net =
           Inl (if pandas2 then AttributeError else KeyError ''Market_Cap'')"
  using assms by (simp add: fetch_etf_data_def bind_e_def normalize_empty)

text \<open>
  Claim C2 (fails on the code). When every page request returns a non-success status
  (here 500) no record is collected, the frame is made from the empty list and has no
  column, and the normalization raises: \<^verbatim>\<open>AttributeError\<close> from the \<^verbatim>\<open>.str\<close> accessor
  of the columns with pandas 2.0 or later, \<^verbatim>\<open>KeyError: 'Market_Cap'\<close> from line 74
  before. The exception leaves \<^verbatim>\<open>fetch_etf_data\<close>; no table is returned.
\<close>

theorem fetch_etf_data_all_pages_fail:
  "fetch_etf_data pandas2 p (\<lambda>offset. Inr \<lparr>status_code = 500, json_body = None\<rparr>) =
     Inl (if pandas2 then AttributeError else KeyError ''Market_Cap'')"
proof -
  have "fetch_all (\<lambda>offset. Inr \<lparr>status_code = 500, json_body = (None :: 'a json option)\<rparr>) =
     Inr \<lparr>all_data = [], trace = concat (map (\<lambda>offset. [Post offset, StError offset 500, Sleep 1])
        (range_py 0 total_results count))\<rparr>"
    by (simp add: fetch_all_def fetch_run_def range_py_configured fetch_page_def Let_def)
  then show ?thesis
    by (simp add: fetch_etf_data_def bind_e_def normalize_empty)
qed

section \<open>The example run\<close>

lemma example_fetch_all:
  "fetch_all example_net = Inr \<lparr>all_data = example_rows, trace = example_trace\<rparr>"
  by (simp add: fetch_all_def fetch_run_def range_py_configured fetch_page_def Let_def
      bind_e_def example_net_def response_json_def build_row_def example_item_def
      example_ratios_def example_rows_def example_trace_def)

lemma example_fetch_etf_data:
  "fetch_etf_data pandas2 (\<lambda>s. None) example_net = Inr (example_frame, example_trace)"
proof -
  have df: "DataFrame_py pandas2 example_rows =
      \<lparr>columns = Index raw_columns, rows = zip [0..<length example_rows] (map cells_of example_rows)\<rparr>"
    by (rule DataFrame_py_keyed) (simp_all add: example_rows_def keyed_def raw_columns_def)
  have "normalized (\<lambda>s. None)
      \<lparr>columns = Index raw_columns, rows = zip [0..<length example_rows] (map cells_of example_rows)\<rparr>
    = example_frame"
    by (simp add: normalized_def example_rows_def cells_of_def keeps_def coerce_cells_def
        cell_at_def upt_rec example_frame_def)
  then show ?thesis
    by (simp add: fetch_etf_data_def example_fetch_all bind_e_def df normalize_raw)
qed

section \<open>Numeric cells after the normalization\<close>

lemma keyed_length: "keyed d \<Longrightarrow> length d = 10"
  unfolding keyed_def by (drule arg_cong [where f = length]) (simp add: raw_columns_def)

lemma length_cells_of [simp]: "length (cells_of d) = length d"
  by (simp add: cells_of_def)

lemma row_numeric:
  assumes "length r = 10" and "keeps (l, coerce_cells p [2, 3, 4, 5, 6, 7, 8, 9] r)"
    and "i \<in> {2, 3, 4, 5, 6, 7, 8, 9}"
  shows "\<exists>x. cell_at (coerce_cells p [2, 3, 4, 5, 6, 7, 8, 9] r) i = Val (JNum x)"
proof -
  have i: "i < length r" and mem: "i \<in> set [2, 3, 4, 5, 6, 7, 8, 9]"
    using assms(1,3) by auto
  have cell: "cell_at (coerce_cells p [2, 3, 4, 5, 6, 7, 8, 9] r) i = to_numeric p (r ! i)"
    using i mem by (simp add: cell_at_def nth_coerce_cells del: set_simps)
  have "\<not> isna (coerce_cells p [2, 3, 4, 5, 6, 7, 8, 9] r ! i)"
    using assms(2) i nth_mem [of i "coerce_cells p [2, 3, 4, 5, 6, 7, 8, 9] r"]
    by (simp add: keeps_def list_ex_iff)
  then have "\<not> isna (to_numeric p (r ! i))"
    using i mem by (simp add: nth_coerce_cells del: set_simps)
  with to_numeric_cases [of p "r ! i"] show ?thesis
    by (auto simp: cell)
qed

lemma numeric_cell_iff:
  "get_loc (columns df) col = Inr i \<Longrightarrow>
     numeric_cell df r col \<longleftrightarrow> (\<exists>x. cell_at r i = Val (JNum x))"
  by (simp add: numeric_cell_def split: cell.splits json.splits)

lemma list_all_numeric_cell:
  assumes "list_all2 (\<lambda>c i. get_loc (columns df) c = Inr i) cols js"
    and "\<And>i. i \<in> set js \<Longrightarrow> \<exists>x. cell_at r i = Val (JNum x)"
  shows "list_all (numeric_cell df r) cols"
  using assms
proof (induction cols arbitrary: js)
  case Nil
  then show ?case by simp
next
  case (Cons c cols)
  from Cons.prems(1) obtain i js' where js: "js = i # js'"
    and i: "get_loc (columns df) c = Inr i"
    and rest: "list_all2 (\<lambda>c i. get_loc (columns df) c = Inr i) cols js'"
    by (auto simp: list_all2_Cons1)
  have "numeric_cell df r c"
    using Cons.prems(2) [of i] by (simp add: numeric_cell_iff [OF i] js)
  moreover have "list_all (numeric_cell df r) cols"
    using Cons.IH [OF rest] Cons.prems(2) by (simp add: js)
  ultimately show ?case by simp
qed

lemma numeric_cells_row:
  assumes "length r = 10" and "keeps (l, coerce_cells p [2, 3, 4, 5, 6, 7, 8, 9] r)"
    and "columns df = Index final_columns"
  shows "list_all (numeric_cell df (coerce_cells p [2, 3, 4, 5, 6, 7, 8, 9] r)) numeric_cols"
proof (rule list_all_numeric_cell)
  show "list_all2 (\<lambda>c i. get_loc (columns df) c = Inr i) numeric_cols [2, 3, 4, 5, 6, 7, 8, 9]"
    unfolding assms(3) by (rule get_loc_final)
next
  fix i :: nat
  assume "i \<in> set [2, 3, 4, 5, 6, 7, 8, 9]"
  then have "i \<in> {2, 3, 4, 5, 6, 7, 8, 9}"
    by simp
  then show "\<exists>x. cell_at (coerce_cells p [2, 3, 4, 5, 6, 7, 8, 9] r) i = Val (JNum x)"
    by (rule row_numeric [OF assms(1,2)])
qed

lemma in_set_zip_upt:
  "(i, r) \<in> set (zip [0..<length xs] xs) \<longleftrightarrow> i < length xs \<and> r = xs ! i"
proof
  assume "(i, r) \<in> set (zip [0..<length xs] xs)"
  then show "i < length xs \<and> r = xs ! i"
    by (auto simp: set_zip)
next
  assume "i < length xs \<and> r = xs ! i"
  then have "(i, r) = ([0..<length xs] ! i, xs ! i)" and "i < min (length [0..<length xs]) (length xs)"
    by simp_all
  then show "(i, r) \<in> set (zip [0..<length xs] xs)"
    unfolding set_zip by blast
qed

lemma fetched_rows_numeric:
  assumes "fetch_etf_data pandas2 p net = Inr (df, tr)"
  shows "list_all (\<lambda>lr. list_all (numeric_cell df (snd lr)) numeric_cols) (rows df)"
proof -
  from assms obtain s :: "'a fetch_state" where k: "list_all keyed (all_data s)"
    and df: "df = normalized p \<lparr>columns = Index raw_columns,
                rows = zip [0..<length (all_data s)] (map cells_of (all_data s))\<rparr>"
    by (rule fetch_etf_data_cases) auto
  have "list_all (numeric_cell df (snd lr)) numeric_cols" if "lr \<in> set (rows df)" for lr
  proof -
    from that obtain l r where lr: "lr = (l, coerce_cells p [2, 3, 4, 5, 6, 7, 8, 9] r)"
      and keep: "keeps (l, coerce_cells p [2, 3, 4, 5, 6, 7, 8, 9] r)"
      and r: "(l, r) \<in> set (zip [0..<length (all_data s)] (map cells_of (all_data s)))"
      by (auto simp: df rows_normalized)
    from r have "r \<in> set (map cells_of (all_data s))"
      by (rule set_zip_rightD)
    with k have "length r = 10"
      by (auto simp: list_all_iff keyed_length)
    from numeric_cells_row [OF this keep, of df] show ?thesis
      by (simp add: lr df)
  qed
  then show ?thesis
    by (simp add: list_all_iff)
qed

lemma isna_Val: "isna (Val v) \<longleftrightarrow> v = JNull \<or> v = JNaN"
  by (cases v) simp_all

lemma list_ex_isna_Val: "list_ex isna (map Val vs) \<longleftrightarrow> JNull \<in> set vs \<or> JNaN \<in> set vs"
  by (induction vs) (auto simp: isna_Val)

lemma cells_of_values: "cells_of d = map Val (map snd d)"
  by (simp add: cells_of_def)

lemma keeps_cells_of:
  "keeps (l, cells_of d) \<longleftrightarrow> JNull \<notin> snd ` set d \<and> JNaN \<notin> snd ` set d"
  unfolding keeps_def snd_conv cells_of_values list_ex_isna_Val set_map by simp

lemma keeps_label: "keeps (l, r) \<longleftrightarrow> keeps (l', r)"
  by (simp add: keeps_def)

lemma labels_dropna_zip:
  "set (labels (dropna \<lparr>columns = ix, rows = zip [0..<length cs] cs\<rparr>)) =
     {i. i < length cs \<and> keeps (i, cs ! i)}"
  by (auto simp: labels_def in_set_zip_upt image_iff)






lemma fetched_frame:
  assumes "fetch_all net = Inr s" and "all_data s \<noteq> []"
  shows "DataFrame_py pandas2 (all_data s) =
     \<lparr>columns = Index raw_columns,
      rows = zip [0..<length (all_data s)] (map cells_of (all_data s))\<rparr>"
  using DataFrame_py_keyed [OF assms(2) fetch_all_keyed [OF assms(1)]] .



theorem normalize_idempotent_witness:
  "normalize (\<lambda>s. None) example_frame = Inr example_frame"
  by (rule normalize_idempotent [OF example_fetch_etf_data [of True]])

text \<open>The row with a label after a drop pass, for rows whose labels differ.\<close>

lemma map_of_filter:
  assumes "distinct (map fst rs)"
  shows "map_of (filter keep rs) l =
     (case map_of rs l of
        None \<Rightarrow> None
      | Some cs \<Rightarrow> (if keep (l, cs) then Some cs else None))"
  using assms
proof (induction rs)
  case Nil
  then show ?case by simp
next
  case (Cons r rs)
  obtain l' cs' where r: "r = (l', cs')"
    by (cases r)
  from Cons.prems have "l' \<notin> fst ` set rs" and d: "distinct (map fst rs)"
    by (simp_all add: r)
  then have none: "map_of rs l' = None"
    by (simp add: map_of_eq_None_iff)
  show ?case
  proof (cases "l = l'")
    case True
    with Cons.IH [OF d] none show ?thesis
      by (simp add: r)
  next
    case False
    with Cons.IH [OF d] show ?thesis
      by (simp add: r)
  qed
qed

lemma map_of_map_cells:
  "map_of (map (\<lambda>lr. (fst lr, f (snd lr))) xs) k = map_option f (map_of xs k)"
  by (induction xs) auto

lemma map_option_if:
  "map_option f (if c then Some a else None) = (if c then Some (f a) else None)"
  by simp

lemma map_of_zip_upt: "i < length cs \<Longrightarrow> map_of (zip [0..<length cs] cs) i = Some (cs ! i)"
  using map_of_zip_nth [of "[0..<length cs]" cs i] by simp

lemma to_numeric_number_of:
  "to_numeric p (Val v) = (case number_of p v of None \<Rightarrow> NaN | Some x \<Rightarrow> Val (JNum x))"
  by (cases v) (simp_all split: option.splits)

lemma coerce_cells_values:
  assumes "length vs = 10"
  shows "coerce_cells p [2, 3, 4, 5, 6, 7, 8, 9] (map Val vs) =
     map Val (take 2 vs) @
     map (\<lambda>v. case number_of p v of None \<Rightarrow> NaN | Some x \<Rightarrow> Val (JNum x)) (drop 2 vs)"
proof -
  from assms obtain v0 v1 v2 v3 v4 v5 v6 v7 v8 v9 where
    "vs = [v0, v1, v2, v3, v4, v5, v6, v7, v8, v9]"
    by (auto simp: length_Suc_conv numeral_eq_Suc)
  then show ?thesis
    by (simp add: coerce_cells_def cell_at_def to_numeric_number_of)
qed

lemma keeps_coerced:
  assumes "JNull \<notin> set vs" and "JNaN \<notin> set vs"
  shows "keeps (l, map Val (take 2 vs) @
           map (\<lambda>v. case number_of p v of None \<Rightarrow> NaN | Some x \<Rightarrow> Val (JNum x)) (drop 2 vs))
     \<longleftrightarrow> list_all (\<lambda>v. number_of p v \<noteq> None) (drop 2 vs)"
proof -
  have "\<not> list_ex isna (map Val (take 2 vs))"
    using assms by (auto simp: list_ex_isna_Val dest: in_set_takeD)
  moreover have "list_ex isna
        (map (\<lambda>v. case number_of p v of None \<Rightarrow> NaN | Some x \<Rightarrow> Val (JNum x)) ds)
      \<longleftrightarrow> \<not> list_all (\<lambda>v. number_of p v \<noteq> None) ds" for ds
    by (induction ds) (auto split: option.splits)
  ultimately show ?thesis
    by (simp add: keeps_def)
qed

text \<open>
  Claim C3. The normalization of the fetched records is a first drop pass, the coercion
  of the numeric columns, and a second drop pass, in this order; the frame after the
  second pass is the frame returned. For the record at position \<open>i\<close> with the ten
  values \<open>vs\<close> (its row in a frame is the one with the label \<open>i\<close>, which
  \<open>map_of\<close> looks up): it is in the frame after the first pass exactly when no value is
  null-like (\<^verbatim>\<open>None\<close> or NaN), and then with its values as they are; the coercion
  leaves Name and Sub-Sector as they are and replaces each of the eight numeric values
  by the number it denotes, or by NaN when it denotes none (a string that does not
  parse such as \<^verbatim>\<open>"NA"\<close>, the empty string, a list, a dict); and it is in the frame
  after the second pass exactly when, in addition, each of the eight values denotes a
  number. So a record with a value that is not null-like and not numeric in a numeric
  column is there after the first pass and the coercion, and gone after the second.
\<close>

theorem two_pass_drop:
  assumes "fetch_all net = Inr s" and "i < length (all_data s)"
  shows "\<exists>df3.
      coerce_columns p
        ((dropna (DataFrame_py pandas2 (all_data s)))\<lparr>columns := Index final_columns\<rparr>)
        numeric_cols = Inr df3
    \<and> fetch_etf_data pandas2 p net = Inr (dropna df3, trace s)
    \<and> (let vs = map snd (all_data s ! i);
           first = (JNull \<notin> set vs \<and> JNaN \<notin> set vs);
           cs = map Val (take 2 vs) @
                map (\<lambda>v. case number_of p v of None \<Rightarrow> NaN | Some x \<Rightarrow> Val (JNum x))
                  (drop 2 vs)
       in map_of (rows (dropna (DataFrame_py pandas2 (all_data s)))) i =
            (if first then Some (map Val vs) else None)
        \<and> map_of (rows df3) i = (if first then Some cs else None)
        \<and> map_of (rows (dropna df3)) i =
            (if first \<and> list_all (\<lambda>v. number_of p v \<noteq> None) (drop 2 vs)
             then Some cs else None))"
proof -
  let ?vs = "map snd (all_data s ! i)"
  let ?first = "JNull \<notin> set ?vs \<and> JNaN \<notin> set ?vs"
  let ?cs = "map Val (take 2 ?vs) @
     map (\<lambda>v. case number_of p v of None \<Rightarrow> NaN | Some x \<Rightarrow> Val (JNum x)) (drop 2 ?vs)"
  let ?rs = "map cells_of (all_data s)"
  let ?zs = "zip [0..<length (all_data s)] ?rs"
  let ?df0 = "\<lparr>columns = Index raw_columns, rows = ?zs\<rparr>"
  let ?df2 = "(dropna ?df0)\<lparr>columns := Index final_columns\<rparr>"
  let ?g = "\<lambda>lr :: nat \<times> 'a cell list. (fst lr, coerce_cells p [2, 3, 4, 5, 6, 7, 8, 9] (snd lr))"
  let ?df3 = "?df2\<lparr>rows := map ?g (rows ?df2)\<rparr>"
  have ne: "all_data s \<noteq> []"
    using assms(2) by auto
  have df0: "DataFrame_py pandas2 (all_data s) = ?df0"
    using assms(1) ne by (rule fetched_frame)
  have k: "keyed (all_data s ! i)"
    using fetch_all_keyed [OF assms(1)] assms(2) by (simp add: list_all_length)
  have len: "length ?vs = 10"
    using keyed_length [OF k] by simp
  have "list_all2 (\<lambda>c i. get_loc (columns ?df2) c = Inr i) numeric_cols [2, 3, 4, 5, 6, 7, 8, 9]"
    using get_loc_final by simp
  then have c: "coerce_columns p ?df2 numeric_cols = Inr ?df3"
    by (rule coerce_columns_found)
  have n: "normalized p ?df0 = dropna ?df3"
    by (simp add: normalized_def dropna_eq)
  have run: "fetch_etf_data pandas2 p net = Inr (dropna ?df3, trace s)"
    by (simp add: fetch_etf_data_def assms(1) bind_e_def df0 normalize_raw n)
  have "?rs ! i = map Val ?vs"
    using assms(2) by (simp add: cells_of_values)
  with map_of_zip_upt [of i ?rs] assms(2) have z: "map_of ?zs i = Some (map Val ?vs)"
    by simp
  have dz: "distinct (map fst ?zs)"
    by simp
  have k1: "keeps (i, map Val ?vs) \<longleftrightarrow> ?first"
    unfolding keeps_def snd_conv list_ex_isna_Val by simp
  have r1: "rows (dropna ?df0) = filter keeps ?zs"
    by simp
  have m1: "map_of (rows (dropna ?df0)) i = (if ?first then Some (map Val ?vs) else None)"
    unfolding r1 map_of_filter [OF dz] z using k1 by simp
  have r3: "rows ?df3 = map ?g (filter keeps ?zs)"
    by simp
  have cc: "coerce_cells p [2, 3, 4, 5, 6, 7, 8, 9] (map Val ?vs) = ?cs"
    using len by (rule coerce_cells_values)
  have m3: "map_of (rows ?df3) i = (if ?first then Some ?cs else None)"
    unfolding r3 map_of_map_cells m1 [unfolded r1] map_option_if cc ..
  have "distinct (map fst (filter keeps ?zs))"
    using dz by (rule distinct_map_filter)
  then have d3: "distinct (map fst (rows ?df3))"
    unfolding r3 by (simp add: o_def)
  have r4: "rows (dropna ?df3) = filter keeps (rows ?df3)"
    by simp
  have m4: "map_of (rows (dropna ?df3)) i =
      (if ?first \<and> list_all (\<lambda>v. number_of p v \<noteq> None) (drop 2 ?vs) then Some ?cs else None)"
  proof -
    have "keeps (i, ?cs) \<longleftrightarrow> list_all (\<lambda>v. number_of p v \<noteq> None) (drop 2 ?vs)" if ?first
      using that by (intro keeps_coerced) simp_all
    then show ?thesis
      unfolding r4 map_of_filter [OF d3] m3
      by (cases "JNull \<in> set ?vs"; cases "JNaN \<in> set ?vs") simp_all
  qed
  show ?thesis
    unfolding df0 Let_def
    by (rule exI [of _ ?df3]) (intro conjI c run m1 m3 m4)
qed

theorem two_pass_drop_witness:
  "\<exists>df3. coerce_columns (\<lambda>s. None)
             ((dropna (DataFrame_py True example_rows))\<lparr>columns := Index final_columns\<rparr>)
             numeric_cols = Inr df3
      \<and> fetch_etf_data True (\<lambda>s. None) example_net = Inr (dropna df3, example_trace)
      \<and> map_of (rows (dropna (DataFrame_py True example_rows))) 1 =
          Some [Val (JStr ''B''), Val (JStr ''E_G''), Val (JStr ''NA''), Val (JNum 10),
                Val (JNum 1), Val (JNum 2), Val (JNum 3), Val (JNum 4), Val (JNum 5),
                Val (JNum 1)]
      \<and> map_of (rows df3) 1 =
          Some [Val (JStr ''B''), Val (JStr ''E_G''), NaN, Val (JNum 10),
                Val (JNum 1), Val (JNum 2), Val (JNum 3), Val (JNum 4), Val (JNum 5),
                Val (JNum 1)]
      \<and> map_of (rows (dropna df3)) 1 = None"
proof -
  have i: "1 < length (all_data \<lparr>all_data = example_rows, trace = example_trace\<rparr>)"
    by (simp add: example_rows_def)
  have vs: "map snd (example_rows ! 1) =
      [JStr ''B'', JStr ''E_G'', JStr ''NA'', JNum 10, JNum 1, JNum 2, JNum 3, JNum 4, JNum 5,
       JNum 1]"
    by (simp add: example_rows_def)
  have a: "all_data \<lparr>all_data = example_rows, trace = example_trace\<rparr> = example_rows"
    and t: "trace \<lparr>all_data = example_rows, trace = example_trace\<rparr> = example_trace"
    by simp_all
  from two_pass_drop [OF example_fetch_all i, of "\<lambda>s. None" True, unfolded a t Let_def vs]
  obtain df3 where "coerce_columns (\<lambda>s. None)
             ((dropna (DataFrame_py True example_rows))\<lparr>columns := Index final_columns\<rparr>)
             numeric_cols = Inr df3"
    and "fetch_etf_data True (\<lambda>s. None) example_net = Inr (dropna df3, example_trace)"
    and "map_of (rows (dropna (DataFrame_py True example_rows))) 1 =
          Some [Val (JStr ''B''), Val (JStr ''E_G''), Val (JStr ''NA''), Val (JNum 10),
                Val (JNum 1), Val (JNum 2), Val (JNum 3), Val (JNum 4), Val (JNum 5),
                Val (JNum 1)]"
    and "map_of (rows df3) 1 =
          Some [Val (JStr ''B''), Val (JStr ''E_G''), NaN, Val (JNum 10),
                Val (JNum 1), Val (JNum 2), Val (JNum 3), Val (JNum 4), Val (JNum 5),
                Val (JNum 1)]"
    and "map_of (rows (dropna df3)) 1 = None"
    by auto
  then show ?thesis
    by blast
qed

lemma build_row_fields:
  assumes "get_py item ''stock'' (JObj []) = Inr stock_info"
    and "get_py stock_info ''advancedRatios'' (JObj []) = Inr (JObj ratios)"
    and "get_py stock_info ''info'' (JObj []) = Inr (JObj info)"
  shows "build_row item =
     Inr (zip raw_columns (map2 or_default (field_values info ratios) field_defaults))"
  by (simp add: build_row_def assms bind_e_def raw_columns_def field_values_def
      field_defaults_def ratio_keys_def or_default_def)

lemma value_or_default:
  assumes "length vs = length ds" and "v \<notin> set ds"
  shows "v \<in> set (map2 or_default vs ds) \<longleftrightarrow> Some v \<in> set vs"
  using assms
  by (induction vs ds rule: list_induct2) (auto simp: or_default_def split: option.splits)

lemma length_field_values: "length (field_values info ratios) = 10"
  by (simp add: field_values_def ratio_keys_def)

lemma length_field_defaults: "length field_defaults = 10"
  by (simp add: field_defaults_def)

lemma defaults_not_null: "JNull \<notin> set field_defaults" "JNaN \<notin> set field_defaults"
  by (simp_all add: field_defaults_def)

lemma nan_fetch_all: "fetch_all nan_net = Inr \<lparr>all_data = nan_rows, trace = example_trace\<rparr>"
  by (simp add: fetch_all_def fetch_run_def range_py_configured fetch_page_def Let_def
      bind_e_def nan_net_def response_json_def build_row_def fund_item_def fund_row_def
      nan_rows_def example_trace_def)

lemma nan_rows_frame:
  "DataFrame_py pandas2 nan_rows =
     \<lparr>columns = Index raw_columns, rows = zip [0..<length nan_rows] (map cells_of nan_rows)\<rparr>"
  by (rule DataFrame_py_keyed)
    (simp_all add: nan_rows_def fund_row_def keyed_def raw_columns_def)

text \<open>
  Claim C10, as amended. The first drop pass keeps a fetched record exactly when none
  of the ten values of its row is \<^verbatim>\<open>None\<close> or NaN, whatever the column (Name and
  Sub-Sector included). The row of a result holds, for each field, the value the
  response has under the key, or the default (the empty string, or \<^verbatim>\<open>'NA'\<close>) when the
  key is absent; no default is null-like, so a value of the row is \<^verbatim>\<open>None\<close> exactly
  when the response has an explicit \<^verbatim>\<open>null\<close> under one of the ten keys, and NaN
  exactly when it has the literal \<^verbatim>\<open>NaN\<close> there, and never because a key is absent.
\<close>

theorem first_pass_null_or_nan:
  assumes "fetch_all net = Inr (s :: 'a fetch_state)" and "i < length (all_data s)"
  shows "(i \<in> set (labels (dropna (DataFrame_py pandas2 (all_data s))))
            \<longleftrightarrow> JNull \<notin> snd ` set (all_data s ! i) \<and> JNaN \<notin> snd ` set (all_data s ! i))
    \<and> (\<forall>item stock_info ratios info.
          get_py (item :: 'a json) ''stock'' (JObj []) = Inr stock_info
          \<and> get_py stock_info ''advancedRatios'' (JObj []) = Inr (JObj ratios)
          \<and> get_py stock_info ''info'' (JObj []) = Inr (JObj info)
          \<longrightarrow> (\<exists>r. build_row item = Inr r
                \<and> map snd r = map2 or_default (field_values info ratios) field_defaults
                \<and> (JNull \<in> snd ` set r \<longleftrightarrow> Some JNull \<in> set (field_values info ratios))
                \<and> (JNaN \<in> snd ` set r \<longleftrightarrow> Some JNaN \<in> set (field_values info ratios))))
    \<and> list_all (\<lambda>d. \<not> isna (Val d)) (field_defaults :: 'a json list)"
proof -
  have ne: "all_data s \<noteq> []"
    using assms(2) by auto
  have p1: "i \<in> set (labels (dropna (DataFrame_py pandas2 (all_data s))))
            \<longleftrightarrow> JNull \<notin> snd ` set (all_data s ! i) \<and> JNaN \<notin> snd ` set (all_data s ! i)"
    using assms(2) labels_dropna_zip [of "Index raw_columns" "map cells_of (all_data s)"]
    by (simp add: fetched_frame [OF assms(1) ne] keeps_cells_of)
  have p2: "\<exists>r. build_row item = Inr r
                \<and> map snd r = map2 or_default (field_values info ratios) field_defaults
                \<and> (JNull \<in> snd ` set r \<longleftrightarrow> Some JNull \<in> set (field_values info ratios))
                \<and> (JNaN \<in> snd ` set r \<longleftrightarrow> Some JNaN \<in> set (field_values info ratios))"
    if a: "get_py item ''stock'' (JObj []) = Inr stock_info
          \<and> get_py stock_info ''advancedRatios'' (JObj []) = Inr (JObj ratios)
          \<and> get_py stock_info ''info'' (JObj []) = Inr (JObj info)"
    for item stock_info :: "'a json" and ratios info
  proof -
    let ?vals = "map2 or_default (field_values info ratios) field_defaults"
    have len: "length raw_columns = length ?vals"
      by (simp add: length_field_values length_field_defaults raw_columns_def)
    have b: "build_row item = Inr (zip raw_columns ?vals)"
      using a by (intro build_row_fields) auto
    have vals: "map snd (zip raw_columns ?vals) = ?vals"
      using len by (rule map_snd_zip)
    have "snd ` set (zip raw_columns ?vals) = set ?vals"
      using vals by (metis set_map)
    moreover have "JNull \<in> set ?vals \<longleftrightarrow> Some JNull \<in> set (field_values info ratios)"
      by (rule value_or_default)
        (simp_all add: length_field_values length_field_defaults defaults_not_null)
    moreover have "JNaN \<in> set ?vals \<longleftrightarrow> Some JNaN \<in> set (field_values info ratios)"
      by (rule value_or_default)
        (simp_all add: length_field_values length_field_defaults defaults_not_null)
    ultimately show ?thesis
      using b vals by simp
  qed
  have p3: "list_all (\<lambda>d. \<not> isna (Val d)) (field_defaults :: 'a json list)"
    by (simp add: field_defaults_def)
  from p1 p2 p3 show ?thesis
    by blast
qed

theorem first_pass_null_or_nan_witness:
  "2 \<notin> set (labels (dropna (DataFrame_py True example_rows)))
   \<and> JNull \<in> snd ` set (example_rows ! 2)
   \<and> (\<exists>r. build_row (example_item JNull (JNum 300)) = Inr r
        \<and> JNull \<in> snd ` set r
        \<and> Some JNull \<in> set (field_values [(''name'', JNull)] (example_ratios (JNum 300))))"
proof -
  have i: "2 < length (all_data \<lparr>all_data = example_rows, trace = example_trace\<rparr>)"
    by (simp add: example_rows_def)
  note t = first_pass_null_or_nan [OF example_fetch_all i, of True]
  have n: "JNull \<in> snd ` set (example_rows ! 2)"
    by (simp add: example_rows_def)
  have g: "get_py (example_item JNull (JNum 300)) ''stock'' (JObj []) =
          Inr (JObj [(''info'', JObj [(''name'', JNull)]),
                     (''advancedRatios'', JObj (example_ratios (JNum 300)))])
      \<and> get_py (JObj [(''info'', JObj [(''name'', JNull)]),
                     (''advancedRatios'', JObj (example_ratios (JNum 300)))])
           ''advancedRatios'' (JObj []) = Inr (JObj (example_ratios (JNum 300)))
      \<and> get_py (JObj [(''info'', JObj [(''name'', JNull)]),
                     (''advancedRatios'', JObj (example_ratios (JNum 300)))])
           ''info'' (JObj []) = Inr (JObj [(''name'', JNull)])"
    by (simp add: example_item_def)
  have v: "Some JNull \<in> set (field_values [(''name'', JNull)] (example_ratios (JNum 300)))"
    by (simp add: field_values_def)
  from conjunct1 [OF conjunct2 [OF t], rule_format, OF g] v
  have "\<exists>r. build_row (example_item JNull (JNum 300)) = Inr r \<and> JNull \<in> snd ` set r"
    by blast
  moreover from conjunct1 [OF t] n
  have "2 \<notin> set (labels (dropna (DataFrame_py True example_rows)))"
    by simp
  ultimately show ?thesis
    using n v by blast
qed

text \<open>
  The record at position 1 of the second example has the literal \<^verbatim>\<open>NaN\<close> as its market
  cap and no \<^verbatim>\<open>null\<close> in any field, and the first drop pass removes it.
\<close>

theorem first_pass_nan_counterexample:
  "fetch_all nan_net = Inr \<lparr>all_data = nan_rows, trace = example_trace\<rparr>
   \<and> JNull \<notin> snd ` set (nan_rows ! 1)
   \<and> labels (DataFrame_py True nan_rows) = [0, 1, 2]
   \<and> labels (dropna (DataFrame_py True nan_rows)) = [0, 2]"
proof -
  have "JNull \<notin> snd ` set (nan_rows ! 1)"
    by (simp add: nan_rows_def fund_row_def)
  moreover have "labels (DataFrame_py True nan_rows) = [0, 1, 2]"
    unfolding nan_rows_frame labels_def by (simp add: nan_rows_def upt_rec)
  moreover have "labels (dropna (DataFrame_py True nan_rows)) = [0, 2]"
    unfolding nan_rows_frame labels_def
    by (simp add: nan_rows_def fund_row_def upt_rec cells_of_def keeps_def)
  ultimately show ?thesis
    using nan_fetch_all by simp
qed

section \<open>Properties of the error policy\<close>











section \<open>Properties of the derived views\<close>

lemma top_n_bounds:
  assumes "50 \<le> length (rows df)"
  shows "10 \<le> top_n df pick \<and> top_n df pick \<le> int (length (rows df))"
  using assms by (auto simp: top_n_def slider_def Let_def split: option.splits)

lemma top_n_default: "top_n df None = 50"
  by (simp add: top_n_def slider_def Let_def)

text \<open>
  Claim C7 (fails on the code). For a table of at least 50 rows the size bound lies
  between 10 and the number of rows (lemma \<open>top_n_bounds\<close>). For a smaller table the
  default 50 of the slider is above the upper bound passed to it, the slider widens its
  range to contain the default, and the bound in use is 50 until the user moves the
  handle: for a table of 30 rows it is 50, more than the number of rows.
\<close>

theorem top_n_small_table:
  "length (rows (uniform_frame 30)) = 30 \<and> top_n (uniform_frame 30) None = 50
   \<and> \<not> top_n (uniform_frame 30) None \<le> int (length (rows (uniform_frame 30)))"
  by (simp add: top_n_default uniform_frame_def)

lemma fold_min_le_init: "fold min ks k \<le> (k :: 'a :: linorder)"
proof (induction ks arbitrary: k)
  case Nil
  then show ?case by simp
next
  case (Cons a ks)
  have "fold min ks (min a k) \<le> min a k"
    by (rule Cons.IH)
  then show ?case
    by (simp add: min_le_iff_disj)
qed

lemma fold_min_le: "x \<in> set (k # ks) \<Longrightarrow> fold min ks k \<le> (x :: 'a :: linorder)"
proof (induction ks arbitrary: k)
  case Nil
  then show ?case by simp
next
  case (Cons a ks)
  have init: "fold min ks (min a k) \<le> min a k"
    by (rule fold_min_le_init)
  from Cons.prems consider "x = k" | "x = a" | "x \<in> set ks"
    by auto
  then show ?case
  proof cases
    case 3
    then show ?thesis
      using Cons.IH [of "min a k"] by simp
  qed (use init in \<open>auto simp: min_le_iff_disj\<close>)
qed

lemma fold_max_ge_init: "(k :: 'a :: linorder) \<le> fold max ks k"
proof (induction ks arbitrary: k)
  case Nil
  then show ?case by simp
next
  case (Cons a ks)
  have "max a k \<le> fold max ks (max a k)"
    by (rule Cons.IH)
  then show ?case
    by (simp add: le_max_iff_disj)
qed

lemma le_fold_max: "x \<in> set (k # ks) \<Longrightarrow> (x :: 'a :: linorder) \<le> fold max ks k"
proof (induction ks arbitrary: k)
  case Nil
  then show ?case by simp
next
  case (Cons a ks)
  have init: "max a k \<le> fold max ks (max a k)"
    by (rule fold_max_ge_init)
  from Cons.prems consider "x = k" | "x = a" | "x \<in> set ks"
    by auto
  then show ?case
  proof cases
    case 3
    then show ?thesis
      using Cons.IH [of "max a k"] by simp
  qed (use init in \<open>auto simp: le_max_iff_disj\<close>)
qed

lemma nargsort_bound:
  assumes "j \<in> set (nargsort argsort items ascending)"
  shows "j < length items"
proof -
  let ?idx = "[0..<length items]"
  let ?nn = "List.map_filter (\<lambda>(i, v). map_option (Pair i) v) (zip ?idx items)"
  have nn: "fst e < length items" if "e \<in> set ?nn" for e
    using that by (auto simp: map_filter_def dest!: set_zip_leftD)
  have nan: "i < length items" if "i \<in> set (map fst (filter (\<lambda>(i, v). v = None) (zip ?idx items)))" for i
    using that by (auto dest!: set_zip_leftD)
  have a: "fst (?nn ! k) < length items" if "k < length ?nn" for k
    using that nn by simp
  have b: "fst (rev ?nn ! k) < length items" if "k < length ?nn" for k
    using that nn [of "rev ?nn ! k"] by (metis length_rev nth_mem set_rev)
  from assms show ?thesis
    unfolding nargsort_def Let_def
    using a b nan by (auto split: if_splits)
qed

lemma sort_values_rows:
  assumes "sort_values argsort df col ascending = Inr sdf"
  shows "columns sdf = columns df \<and> set (rows sdf) \<subseteq> set (rows df)"
proof -
  from assms obtain i where i: "get_loc (columns df) col = Inr i"
    and sdf: "sdf = df\<lparr>rows := map (\<lambda>j. rows df ! j)
              (nargsort argsort (map (\<lambda>lr. num_key (cell_at (snd lr) i)) (rows df)) ascending)\<rparr>"
    by (auto simp: sort_values_def bind_e_def split: sum.splits)
  have "rows df ! j \<in> set (rows df)"
    if "j \<in> set (nargsort argsort (map (\<lambda>lr. num_key (cell_at (snd lr) i)) (rows df)) ascending)" for j
    using nargsort_bound [OF that] by simp
  then show ?thesis
    by (auto simp: sdf)
qed

lemma view_rows:
  assumes "top_df argsort df col n = Inr view \<or> under_df argsort df col n = Inr view"
  shows "columns view = columns df \<and> set (rows view) \<subseteq> set (rows df)"
proof -
  from assms obtain sdf ascending where s: "sort_values argsort df col ascending = Inr sdf"
    and v: "view = head_py n sdf"
    by (auto simp: top_df_def under_df_def bind_e_def split: sum.splits)
  have "set (rows (head_py n sdf)) \<subseteq> set (rows sdf)"
    by (auto simp: head_py_def dest: in_set_takeD)
  with sort_values_rows [OF s] show ?thesis
    by (auto simp: v head_py_def)
qed

lemma get_loc_expense: "get_loc (Index final_columns) ''Expense_Ratio'' = Inr 9"
  by (simp add: get_loc_def final_columns_def)

lemma get_loc_mcap: "get_loc (Index final_columns) ''Market_Cap'' = Inr 2"
  by (simp add: get_loc_def final_columns_def)

lemma full_span:
  fixes xs :: "(nat \<times> 'a::linorder cell list) list"
  assumes "lr \<in> set xs" and "num_key (cell_at (snd lr) i) = Some x"
  shows "cell_ge (cell_at (snd lr) i)
           (case List.map_filter (\<lambda>lr. num_key (cell_at (snd lr) i)) xs of
              [] \<Rightarrow> None | k # ks \<Rightarrow> Some (fold min ks k))
       \<and> cell_le (cell_at (snd lr) i)
           (case List.map_filter (\<lambda>lr. num_key (cell_at (snd lr) i)) xs of
              [] \<Rightarrow> None | k # ks \<Rightarrow> Some (fold max ks k))"
proof -
  let ?ks = "List.map_filter (\<lambda>lr. num_key (cell_at (snd lr) i)) xs"
  have mem: "x \<in> set ?ks"
    using assms by (force simp: map_filter_def)
  then obtain k ks where ks: "?ks = k # ks"
    by (cases ?ks) auto
  from mem have "fold min ks k \<le> x" and "x \<le> fold max ks k"
    unfolding ks by (rule fold_min_le, rule le_fold_max)
  then show ?thesis
    by (simp add: ks cell_ge_def cell_le_def assms(2))
qed

lemma numeric_cell_key:
  assumes "numeric_cell df r col" and "get_loc (columns df) col = Inr i"
  shows "\<exists>x. num_key (cell_at r i) = Some x"
  using assms by (auto simp: numeric_cell_iff num_key_def)

lemma fetched_columns:
  assumes "fetch_etf_data pandas2 p net = Inr (df, tr)"
  shows "columns df = Index final_columns"
proof -
  from assms obtain df0 where "df = normalized p df0"
    by (rule fetch_etf_data_cases)
  then show ?thesis
    by simp
qed

lemma fetched_keys:
  assumes "fetch_etf_data pandas2 p net = Inr (df, tr)" and "lr \<in> set (rows df)"
    and "col \<in> set numeric_cols" and "get_loc (Index final_columns) col = Inr i"
  shows "\<exists>x. num_key (cell_at (snd lr) i) = Some x"
proof -
  have loc: "get_loc (columns df) col = Inr i"
    using assms(4) by (simp add: fetched_columns [OF assms(1)])
  from fetched_rows_numeric [OF assms(1)] assms(2,3) have "numeric_cell df (snd lr) col"
    by (simp add: list_all_iff)
  then show ?thesis
    using loc by (rule numeric_cell_key)
qed

lemma range_slider_default:
  "range_slider lo hi None =
     (if lo \<noteq> None \<and> lo = hi then Inl StreamlitAPIException else Inr (lo, hi))"
  by (cases lo; cases hi) (simp_all add: range_slider_def)

lemma under_filtered_eq:
  "under_filtered view pick_expense pick_mcap = top_filtered view pick_expense pick_mcap"
  by (simp add: under_filtered_def top_filtered_def under_expense_def top_expense_def
      under_mcap_def top_mcap_def)

text \<open>
  Claim C8. For a top or bottom view of the frame that \<^verbatim>\<open>fetch_etf_data\<close> returns,
  the minimum and maximum of the expense ratio and of the market cap over the view
  exist, and every row of the view lies within the inclusive range from the minimum to
  the maximum of either column. Whenever the two sliders return these ranges (the full
  span), whatever the user did to them, lines 124 to 127 and lines 143 to 146 return
  the view unchanged. Sliders that the user has not touched return the full span, which
  is their default, and the view comes back unchanged, unless the script does not get
  as far as the filter: when the minimum and the maximum of one of the two columns are
  the same number, the slider of that column raises.
\<close>

theorem full_span_filter_identity:
  assumes "fetch_etf_data pandas2 p net = Inr (df, tr)"
    and "top_df argsort df col n = Inr view \<or> under_df argsort df col n = Inr view"
  shows "\<exists>e0 e1 m0 m1.
      series_min view ''Expense_Ratio'' = Inr e0 \<and> series_max view ''Expense_Ratio'' = Inr e1
    \<and> series_min view ''Market_Cap'' = Inr m0 \<and> series_max view ''Market_Cap'' = Inr m1
    \<and> list_all (\<lambda>lr. cell_ge (cell_at (snd lr) 9) e0 \<and> cell_le (cell_at (snd lr) 9) e1) (rows view)
    \<and> list_all (\<lambda>lr. cell_ge (cell_at (snd lr) 2) m0 \<and> cell_le (cell_at (snd lr) 2) m1) (rows view)
    \<and> (\<forall>pick_expense pick_mcap.
          top_expense view pick_expense = Inr (e0, e1) \<and> top_mcap view pick_mcap = Inr (m0, m1)
          \<longrightarrow> top_filtered view pick_expense pick_mcap = Inr view)
    \<and> (\<forall>pick_expense pick_mcap.
          under_expense view pick_expense = Inr (e0, e1) \<and> under_mcap view pick_mcap = Inr (m0, m1)
          \<longrightarrow> under_filtered view pick_expense pick_mcap = Inr view)
    \<and> top_filtered view None None =
        (if (e0 \<noteq> None \<and> e0 = e1) \<or> (m0 \<noteq> None \<and> m0 = m1)
         then Inl StreamlitAPIException else Inr view)
    \<and> under_filtered view None None =
        (if (e0 \<noteq> None \<and> e0 = e1) \<or> (m0 \<noteq> None \<and> m0 = m1)
         then Inl StreamlitAPIException else Inr view)"
proof -
  from view_rows [OF assms(2)] have cv: "columns view = columns df"
    and sub: "set (rows view) \<subseteq> set (rows df)"
    by simp_all
  have c: "columns view = Index final_columns"
    using fetched_columns [OF assms(1)] cv by simp
  have k9: "\<exists>x. num_key (cell_at (snd lr) 9) = Some x" if "lr \<in> set (rows view)" for lr
  proof (rule fetched_keys [OF assms(1) _ _ get_loc_expense])
    show "lr \<in> set (rows df)"
      using that sub by blast
    show "''Expense_Ratio'' \<in> set numeric_cols"
      by (simp add: numeric_cols_def)
  qed
  have k2: "\<exists>x. num_key (cell_at (snd lr) 2) = Some x" if "lr \<in> set (rows view)" for lr
  proof (rule fetched_keys [OF assms(1) _ _ get_loc_mcap])
    show "lr \<in> set (rows df)"
      using that sub by blast
    show "''Market_Cap'' \<in> set numeric_cols"
      by (simp add: numeric_cols_def)
  qed
  let ?lo = "\<lambda>i. case List.map_filter (\<lambda>lr. num_key (cell_at (snd lr) i)) (rows view) of
              [] \<Rightarrow> None | k # ks \<Rightarrow> Some (fold min ks k)"
  let ?hi = "\<lambda>i. case List.map_filter (\<lambda>lr. num_key (cell_at (snd lr) i)) (rows view) of
              [] \<Rightarrow> None | k # ks \<Rightarrow> Some (fold max ks k)"
  have s: "series_min view ''Expense_Ratio'' = Inr (?lo 9)"
      "series_max view ''Expense_Ratio'' = Inr (?hi 9)"
      "series_min view ''Market_Cap'' = Inr (?lo 2)"
      "series_max view ''Market_Cap'' = Inr (?hi 2)"
    by (simp_all add: series_min_def series_max_def c get_loc_expense get_loc_mcap bind_e_def)
  have in9: "cell_ge (cell_at (snd lr) 9) (?lo 9) \<and> cell_le (cell_at (snd lr) 9) (?hi 9)"
    if "lr \<in> set (rows view)" for lr
    using k9 [OF that] full_span [OF that] by blast
  have in2: "cell_ge (cell_at (snd lr) 2) (?lo 2) \<and> cell_le (cell_at (snd lr) 2) (?hi 2)"
    if "lr \<in> set (rows view)" for lr
    using k2 [OF that] full_span [OF that] by blast
  have id: "filter (\<lambda>lr. cell_ge (cell_at (snd lr) 9) (?lo 9) \<and> cell_le (cell_at (snd lr) 9) (?hi 9)
           \<and> cell_ge (cell_at (snd lr) 2) (?lo 2) \<and> cell_le (cell_at (snd lr) 2) (?hi 2))
          (rows view) = rows view"
    using in9 in2 by (simp add: filter_id_conv)
  have f2: "top_filtered view pe pm = Inr view"
    if "top_expense view pe = Inr (?lo 9, ?hi 9) \<and> top_mcap view pm = Inr (?lo 2, ?hi 2)"
    for pe pm
  proof -
    from that have e': "top_expense view pe = Inr (?lo 9, ?hi 9)"
      and m': "top_mcap view pm = Inr (?lo 2, ?hi 2)"
      by simp_all
    show ?thesis
      unfolding top_filtered_def e' m'
      by (simp add: bind_e_def c get_loc_expense get_loc_mcap id)
  qed
  have F2: "\<forall>pe pm. top_expense view pe = Inr (?lo 9, ?hi 9) \<and> top_mcap view pm = Inr (?lo 2, ?hi 2)
      \<longrightarrow> top_filtered view pe pm = Inr view"
    using f2 by blast
  have G2: "\<forall>pe pm. under_expense view pe = Inr (?lo 9, ?hi 9) \<and> under_mcap view pm = Inr (?lo 2, ?hi 2)
      \<longrightarrow> under_filtered view pe pm = Inr view"
    using f2 by (simp add: under_filtered_eq under_expense_def top_expense_def under_mcap_def
        top_mcap_def)
  have e: "top_expense view None =
      (if ?lo 9 \<noteq> None \<and> ?lo 9 = ?hi 9 then Inl StreamlitAPIException else Inr (?lo 9, ?hi 9))"
    unfolding top_expense_def s by (simp only: bind_e_def sum.case range_slider_default)
  have m: "top_mcap view None =
      (if ?lo 2 \<noteq> None \<and> ?lo 2 = ?hi 2 then Inl StreamlitAPIException else Inr (?lo 2, ?hi 2))"
    unfolding top_mcap_def s by (simp only: bind_e_def sum.case range_slider_default)
  have f: "top_filtered view None None =
        (if (?lo 9 \<noteq> None \<and> ?lo 9 = ?hi 9) \<or> (?lo 2 \<noteq> None \<and> ?lo 2 = ?hi 2)
         then Inl StreamlitAPIException else Inr view)"
  proof (cases "(?lo 9 \<noteq> None \<and> ?lo 9 = ?hi 9) \<or> (?lo 2 \<noteq> None \<and> ?lo 2 = ?hi 2)")
    case True
    then show ?thesis
      unfolding top_filtered_def e m by (auto simp: bind_e_def)
  next
    case False
    then have "top_expense view None = Inr (?lo 9, ?hi 9) \<and> top_mcap view None = Inr (?lo 2, ?hi 2)"
      unfolding e m by auto
    then have "top_filtered view None None = Inr view"
      by (rule f2)
    with False show ?thesis
      by (simp only: if_False)
  qed
  from f have g: "under_filtered view None None =
        (if (?lo 9 \<noteq> None \<and> ?lo 9 = ?hi 9) \<or> (?lo 2 \<noteq> None \<and> ?lo 2 = ?hi 2)
         then Inl StreamlitAPIException else Inr view)"
    by (simp only: under_filtered_eq)
  from in9 have a9: "list_all (\<lambda>lr. cell_ge (cell_at (snd lr) 9) (?lo 9)
      \<and> cell_le (cell_at (snd lr) 9) (?hi 9)) (rows view)"
    by (simp add: list_all_iff)
  from in2 have a2: "list_all (\<lambda>lr. cell_ge (cell_at (snd lr) 2) (?lo 2)
      \<and> cell_le (cell_at (snd lr) 2) (?hi 2)) (rows view)"
    by (simp add: list_all_iff)
  show ?thesis
    apply (rule exI [of _ "?lo 9"], rule exI [of _ "?hi 9"])
    apply (rule exI [of _ "?lo 2"], rule exI [of _ "?hi 2"])
    apply (intro conjI s a9 a2 F2 G2 f g)
    done
qed

lemma example_top_view:
  "top_df argsort_stable example_frame ''1Y_Return'' 50 = Inr example_frame"
  by (simp add: top_df_def sort_values_def get_loc_def final_columns_def example_frame_def
      nargsort_def argsort_stable_def map_filter_def num_key_def cell_at_def head_py_def
      bind_e_def Let_def)

lemma example_under_view:
  "under_df argsort_stable example_frame ''1Y_Return'' 50 = Inr example_frame"
  by (simp add: under_df_def sort_values_def get_loc_def final_columns_def example_frame_def
      nargsort_def argsort_stable_def map_filter_def num_key_def cell_at_def head_py_def
      bind_e_def Let_def)

lemma example_spans:
  "series_min example_frame ''Expense_Ratio'' = Inr (Some 1)"
  "series_max example_frame ''Expense_Ratio'' = Inr (Some 1)"
  "series_min example_frame ''Market_Cap'' = Inr (Some 100)"
  "series_max example_frame ''Market_Cap'' = Inr (Some 100)"
  by (simp_all add: series_min_def series_max_def get_loc_def final_columns_def
      example_frame_def map_filter_def num_key_def cell_at_def bind_e_def)

text \<open>
  In the frame of the second example the two funds differ in expense ratio and market
  cap.
\<close>

lemma nan_fetch_etf_data:
  "fetch_etf_data pandas2 (\<lambda>s. None) nan_net = Inr (nan_frame, example_trace)"
proof -
  have "normalized (\<lambda>s. None)
      \<lparr>columns = Index raw_columns, rows = zip [0..<length nan_rows] (map cells_of nan_rows)\<rparr>
    = nan_frame"
    by (simp add: normalized_def nan_rows_def fund_row_def cells_of_def keeps_def
        coerce_cells_def cell_at_def upt_rec nan_frame_def)
  then show ?thesis
    by (simp add: fetch_etf_data_def nan_fetch_all bind_e_def nan_rows_frame normalize_raw)
qed

lemma nan_top_view: "top_df argsort_stable nan_frame ''1Y_Return'' 50 =
    Inr (nan_frame\<lparr>rows := rev (rows nan_frame)\<rparr>)"
  by (simp add: top_df_def sort_values_def get_loc_def final_columns_def nan_frame_def
      nargsort_def argsort_stable_def map_filter_def num_key_def cell_at_def head_py_def
      bind_e_def Let_def)

lemma nan_view_spans:
  "series_min (nan_frame\<lparr>rows := rev (rows nan_frame)\<rparr>) ''Expense_Ratio'' = Inr (Some 1)"
  "series_max (nan_frame\<lparr>rows := rev (rows nan_frame)\<rparr>) ''Expense_Ratio'' = Inr (Some 3)"
  "series_min (nan_frame\<lparr>rows := rev (rows nan_frame)\<rparr>) ''Market_Cap'' = Inr (Some 100)"
  "series_max (nan_frame\<lparr>rows := rev (rows nan_frame)\<rparr>) ''Market_Cap'' = Inr (Some 300)"
  by (simp_all add: series_min_def series_max_def get_loc_def final_columns_def
      nan_frame_def map_filter_def num_key_def cell_at_def bind_e_def)

theorem full_span_filter_identity_witness:
  "top_df argsort_stable nan_frame ''1Y_Return'' 50 = Inr (nan_frame\<lparr>rows := rev (rows nan_frame)\<rparr>)
   \<and> top_expense (nan_frame\<lparr>rows := rev (rows nan_frame)\<rparr>) None = Inr (Some 1, Some 3)
   \<and> top_mcap (nan_frame\<lparr>rows := rev (rows nan_frame)\<rparr>) None = Inr (Some 100, Some 300)
   \<and> top_filtered (nan_frame\<lparr>rows := rev (rows nan_frame)\<rparr>) None None =
       Inr (nan_frame\<lparr>rows := rev (rows nan_frame)\<rparr>)
   \<and> length (rows (nan_frame\<lparr>rows := rev (rows nan_frame)\<rparr>)) = 2"
proof -
  let ?view = "nan_frame\<lparr>rows := rev (rows nan_frame)\<rparr>"
  have v: "top_df argsort_stable nan_frame ''1Y_Return'' 50 = Inr ?view
      \<or> under_df argsort_stable nan_frame ''1Y_Return'' 50 = Inr ?view"
    using nan_top_view by (rule disjI1)
  have e: "top_expense ?view None = Inr (Some 1, Some 3)"
    and m: "top_mcap ?view None = Inr (Some 100, Some 300)"
    by (simp_all add: top_expense_def top_mcap_def nan_view_spans bind_e_def range_slider_def)
  from full_span_filter_identity [OF nan_fetch_etf_data [of True] v]
  obtain e0 e1 m0 m1 where "series_min ?view ''Expense_Ratio'' = Inr e0"
    and "series_max ?view ''Expense_Ratio'' = Inr e1"
    and "series_min ?view ''Market_Cap'' = Inr m0"
    and "series_max ?view ''Market_Cap'' = Inr m1"
    and imp: "\<forall>pick_expense pick_mcap.
          top_expense ?view pick_expense = Inr (e0, e1) \<and> top_mcap ?view pick_mcap = Inr (m0, m1)
          \<longrightarrow> top_filtered ?view pick_expense pick_mcap = Inr ?view"
    by blast
  then have "e0 = Some 1" and "e1 = Some 3" and "m0 = Some 100" and "m1 = Some 300"
    by (simp_all add: nan_view_spans)
  with imp e m have "top_filtered ?view None None = Inr ?view"
    by blast
  moreover have "length (rows ?view) = 2"
    by (simp add: nan_frame_def)
  ultimately show ?thesis
    using nan_top_view e m by simp
qed

lemma map_filter_zip_Some:
  "List.map_filter (\<lambda>(i, v). map_option (Pair i) v) (zip is (map Some ks)) = zip is ks"
  by (induction "is" ks rule: list_induct2') (simp_all add: map_filter_simps)

lemma filter_zip_Some: "filter (\<lambda>(i, v). v = None) (zip is (map Some ks)) = []"
  by (induction "is" ks rule: list_induct2') simp_all

lemma nargsort_numbers:
  "nargsort argsort (map Some ks) ascending =
     (if ascending
      then filter (\<lambda>j. j < length ks) (argsort ks)
      else rev (map (\<lambda>j. length ks - Suc j) (filter (\<lambda>j. j < length ks) (argsort (rev ks)))))"
proof -
  let ?z = "zip [0..<length ks] ks"
  have len: "length ?z = length ks"
    by simp
  have a: "map (\<lambda>j. fst (?z ! j)) (filter (\<lambda>j. j < length ks) js) = filter (\<lambda>j. j < length ks) js"
    for js
    by (rule map_idI) simp
  have b: "map (\<lambda>j. fst (rev ?z ! j)) (filter (\<lambda>j. j < length ks) js)
      = map (\<lambda>j. length ks - Suc j) (filter (\<lambda>j. j < length ks) js)" for js
  proof (rule map_cong)
    fix j assume "j \<in> set (filter (\<lambda>j. j < length ks) js)"
    then have "j < length ks" and "length ks - Suc j < length ks"
      by auto
    then show "fst (rev ?z ! j) = length ks - Suc j"
      by (simp add: rev_nth)
  qed simp
  have s: "map snd ?z = ks" "map snd (rev ?z) = rev ks"
    by (simp_all flip: rev_map)
  show ?thesis
    unfolding nargsort_def Let_def length_map map_filter_zip_Some filter_zip_Some
    by (simp add: a b s del: upt_Suc flip: rev_map)
qed

lemma argsort_ok_filter:
  assumes "argsort_ok argsort"
  shows "filter (\<lambda>j. j < length ks) (argsort ks) = argsort ks"
  using assms by (auto simp: argsort_ok_def filter_id_conv)

lemma argsort_okD:
  assumes "argsort_ok argsort"
  shows "distinct (argsort ks)" and "set (argsort ks) = {0..<length ks}"
    and "sorted (map (\<lambda>j. ks ! j) (argsort ks))" and "length (argsort ks) = length ks"
proof -
  show d: "distinct (argsort ks)" and s: "set (argsort ks) = {0..<length ks}"
    and "sorted (map (\<lambda>j. ks ! j) (argsort ks))"
    using assms by (simp_all add: argsort_ok_def)
  from d have "length (argsort ks) = card (set (argsort ks))"
    by (simp add: distinct_card)
  then show "length (argsort ks) = length ks"
    by (simp add: s)
qed

lemma nargsort_ok:
  assumes "argsort_ok argsort"
  shows "nargsort argsort (map Some ks) True = asc_indexer argsort ks"
    and "nargsort argsort (map Some ks) False = desc_indexer argsort ks"
  using argsort_ok_filter [OF assms, of ks] argsort_ok_filter [OF assms, of "rev ks"]
  by (simp_all add: nargsort_numbers asc_indexer_def desc_indexer_def)

lemma asc_indexer_props:
  assumes "argsort_ok argsort"
  shows "distinct (asc_indexer argsort ks)" and "set (asc_indexer argsort ks) = {0..<length ks}"
    and "sorted (map (\<lambda>j. ks ! j) (asc_indexer argsort ks))"
    and "length (asc_indexer argsort ks) = length ks"
  using argsort_okD [OF assms, of ks] by (simp_all add: asc_indexer_def)

lemma desc_indexer_props:
  fixes ks :: "'a::linorder list"
  assumes "argsort_ok argsort"
  shows "distinct (desc_indexer argsort ks)" and "set (desc_indexer argsort ks) = {0..<length ks}"
    and "sorted (rev (map (\<lambda>j. ks ! j) (desc_indexer argsort ks)))"
    and "length (desc_indexer argsort ks) = length ks"
proof -
  let ?n = "length ks"
  let ?p = "argsort (rev ks)"
  note p = argsort_okD [OF assms, of "rev ks", simplified]
  have inj: "inj_on (\<lambda>j. ?n - Suc j) (set ?p)"
    unfolding p(2) by (rule inj_onI) auto
  show "distinct (desc_indexer argsort ks)"
    by (simp add: desc_indexer_def distinct_map p(1) inj)
  have "(\<lambda>j. ?n - Suc j) ` {0..<?n} = {0..<?n}"
  proof (rule set_eqI, rule iffI)
    fix x assume "x \<in> (\<lambda>j. ?n - Suc j) ` {0..<?n}"
    then show "x \<in> {0..<?n}" by auto
  next
    fix x assume x: "x \<in> {0..<?n}"
    then have "x = ?n - Suc (?n - Suc x)" and "?n - Suc x \<in> {0..<?n}"
      by auto
    then show "x \<in> (\<lambda>j. ?n - Suc j) ` {0..<?n}"
      by (rule image_eqI)
  qed
  then show "set (desc_indexer argsort ks) = {0..<?n}"
    by (simp add: desc_indexer_def p(2))
  have eq: "map (\<lambda>j. ks ! (?n - Suc j)) ?p = map (\<lambda>j. rev ks ! j) ?p"
    by (rule map_cong) (use p(2) in \<open>auto simp: rev_nth\<close>)
  have "rev (map (\<lambda>j. ks ! j) (desc_indexer argsort ks)) = map (\<lambda>j. rev ks ! j) ?p"
    by (simp add: desc_indexer_def rev_map o_def eq)
  then show "sorted (rev (map (\<lambda>j. ks ! j) (desc_indexer argsort ks)))"
    using p(3) by simp
  show "length (desc_indexer argsort ks) = ?n"
    by (simp add: desc_indexer_def p(4))
qed

lemma map_Some_map_filter:
  "(\<And>x. x \<in> set xs \<Longrightarrow> \<exists>y. f x = Some y) \<Longrightarrow> map f xs = map Some (List.map_filter f xs)"
proof (induction xs)
  case Nil
  then show ?case by (simp add: map_filter_simps)
next
  case (Cons a xs)
  from Cons.prems [of a] obtain y where "f a = Some y"
    by auto
  moreover have "map f xs = map Some (List.map_filter f xs)"
    by (rule Cons.IH) (simp add: Cons.prems)
  ultimately show ?case
    by (simp add: map_filter_simps)
qed

lemma numeric_col_loc:
  assumes "col \<in> set numeric_cols"
  obtains i where "get_loc (Index final_columns) col = Inr i"
proof -
  from assms obtain k where "k < length numeric_cols" and "numeric_cols ! k = col"
    by (auto simp: in_set_conv_nth)
  with get_loc_final have "get_loc (Index final_columns) col = Inr ([2, 3, 4, 5, 6, 7, 8, 9] ! k)"
    by (auto simp: list_all2_conv_all_nth)
  then show thesis
    by (rule that)
qed

lemma normalized_keys:
  assumes "normalized_frame df" and "col \<in> set numeric_cols"
    and "get_loc (columns df) col = Inr i"
  shows "map (\<lambda>lr. num_key (cell_at (snd lr) i)) (rows df) = map Some (metric_values df col)"
    and "length (metric_values df col) = length (rows df)"
proof -
  have "\<exists>x. num_key (cell_at (snd lr) i) = Some x" if "lr \<in> set (rows df)" for lr
  proof (rule numeric_cell_key [OF _ assms(3)])
    show "numeric_cell df (snd lr) col"
      using assms(1,2) that by (simp add: normalized_frame_def list_all_iff)
  qed
  then have "map (\<lambda>lr. num_key (cell_at (snd lr) i)) (rows df)
      = map Some (List.map_filter (\<lambda>lr. num_key (cell_at (snd lr) i)) (rows df))"
    by (rule map_Some_map_filter)
  then show m: "map (\<lambda>lr. num_key (cell_at (snd lr) i)) (rows df) = map Some (metric_values df col)"
    by (simp add: metric_values_def assms(3))
  from arg_cong [OF m, of length] show "length (metric_values df col) = length (rows df)"
    by simp
qed

lemma sort_values_normalized:
  fixes df :: "'a::linorder data_frame"
  assumes "normalized_frame df" and "col \<in> set numeric_cols" and "argsort_ok argsort"
  shows "sort_values argsort df col True =
           Inr (df\<lparr>rows := map (\<lambda>j. rows df ! j) (asc_indexer argsort (metric_values df col))\<rparr>)"
    and "sort_values argsort df col False =
           Inr (df\<lparr>rows := map (\<lambda>j. rows df ! j) (desc_indexer argsort (metric_values df col))\<rparr>)"
    and "length (metric_values df col) = length (rows df)"
proof -
  from assms(2) obtain i where "get_loc (Index final_columns) col = Inr i"
    by (rule numeric_col_loc)
  then have i: "get_loc (columns df) col = Inr i"
    using assms(1) by (simp add: normalized_frame_def)
  note k = normalized_keys [OF assms(1,2) i]
  show "sort_values argsort df col True =
           Inr (df\<lparr>rows := map (\<lambda>j. rows df ! j) (asc_indexer argsort (metric_values df col))\<rparr>)"
    by (simp add: sort_values_def i bind_e_def k(1) nargsort_ok [OF assms(3)])
  show "sort_values argsort df col False =
           Inr (df\<lparr>rows := map (\<lambda>j. rows df ! j) (desc_indexer argsort (metric_values df col))\<rparr>)"
    by (simp add: sort_values_def i bind_e_def k(1) nargsort_ok [OF assms(3)])
  show "length (metric_values df col) = length (rows df)"
    by (rule k(2))
qed

lemma sorted_take_drop:
  fixes f :: "'b \<Rightarrow> 'a::linorder"
  assumes "sorted (map f xs)" and "a \<in> set (take k xs)" and "b \<in> set (drop k xs)"
  shows "f a \<le> f b"
proof -
  have "sorted (map f (take k xs) @ map f (drop k xs))"
    using assms(1) by (simp flip: map_append)
  then show ?thesis
    using assms(2,3) by (auto simp: sorted_append)
qed

lemma sorted_rev_take_drop:
  fixes f :: "'b \<Rightarrow> 'a::linorder"
  assumes "sorted (rev (map f xs))" and "a \<in> set (take k xs)" and "b \<in> set (drop k xs)"
  shows "f b \<le> f a"
proof -
  have "sorted (rev (map f (drop k xs)) @ rev (map f (take k xs)))"
    using assms(1) by (simp flip: rev_append map_append)
  then show ?thesis
    using assms(2,3) by (auto simp: sorted_append)
qed

lemma outside_take:
  assumes "set xs = {0..<n :: nat}" and "b < n" and "b \<notin> set (take k xs)"
  shows "b \<in> set (drop k xs)"
proof -
  have "b \<in> set (take k xs @ drop k xs)"
    using assms(1,2) by simp
  with assms(3) show ?thesis
    by (simp only: set_append Un_iff) blast
qed

lemma desc_is_rev_asc:
  fixes ks :: "'a::linorder list"
  assumes "argsort_ok argsort" and "distinct ks"
  shows "desc_indexer argsort ks = rev (asc_indexer argsort ks)"
proof -
  let ?a = "asc_indexer argsort ks" and ?d = "desc_indexer argsort ks"
  note a = asc_indexer_props [OF assms(1), of ks] and d = desc_indexer_props [OF assms(1), of ks]
  have inj: "inj_on (\<lambda>j. ks ! j) {0..<length ks}"
    using assms(2) by (auto simp: inj_on_def nth_eq_iff_index_eq)
  have da: "distinct (map (\<lambda>j. ks ! j) ?a)"
    using a(1,2) inj by (simp add: distinct_map)
  have dd: "distinct (map (\<lambda>j. ks ! j) (rev ?d))"
    using d(1,2) inj by (simp add: distinct_map)
  have "set (map (\<lambda>j. ks ! j) ?a) = set (map (\<lambda>j. ks ! j) (rev ?d))"
    by (simp add: a(2) d(2))
  moreover have "sorted (map (\<lambda>j. ks ! j) (rev ?d))"
    using d(3) by (simp add: rev_map)
  ultimately have "map (\<lambda>j. ks ! j) ?a = map (\<lambda>j. ks ! j) (rev ?d)"
    using a(3) da dd by (intro sorted_distinct_set_unique)
  moreover have "inj_on (\<lambda>j. ks ! j) (set ?a \<union> set (rev ?d))"
    using inj by (simp add: a(2) d(2))
  ultimately have "?a = rev ?d"
    by (simp add: inj_on_map_eq_map)
  then show ?thesis
    by simp
qed

lemma take_rev_disjoint:
  assumes "distinct xs" and "2 * k \<le> length xs"
  shows "set (take k (rev xs)) \<inter> set (take k xs) = {}"
proof -
  have "take k (rev xs) = rev (drop (length xs - k) xs)"
    by (simp add: take_rev)
  moreover have "set (take k xs) \<subseteq> set (take (length xs - k) xs)"
    using assms(2) by (intro set_take_subset_set_take) simp
  moreover have "set (take (length xs - k) xs) \<inter> set (drop (length xs - k) xs) = {}"
    using assms(1) by (metis append_take_drop_id distinct_append)
  ultimately show ?thesis
    by auto
qed

lemma metric_col_numeric:
  assumes "metric_col selected = Inr col"
  shows "col \<in> set numeric_cols"
proof -
  from assms have "map_of metric_map selected = Some col"
    by (simp add: metric_col_def split: option.splits)
  then have "(selected, col) \<in> set metric_map"
    by (rule map_of_SomeD)
  then have "col \<in> snd ` set metric_map"
    by force
  also have "snd ` set metric_map \<subseteq> set numeric_cols"
    by (simp add: metric_map_def numeric_cols_def)
  finally show ?thesis .
qed

lemma labels_picked:
  "labels (df\<lparr>rows := map (\<lambda>j. rows df ! j) js\<rparr>) = map (\<lambda>j. fst (rows df ! j)) js"
  by (simp add: labels_def)

lemma labels_disjoint:
  assumes "distinct (labels df)" and "set xs \<subseteq> {0..<length (rows df)}"
    and "set ys \<subseteq> {0..<length (rows df)}" and "set xs \<inter> set ys = {}"
  shows "set (labels (df\<lparr>rows := map (\<lambda>j. rows df ! j) xs\<rparr>))
       \<inter> set (labels (df\<lparr>rows := map (\<lambda>j. rows df ! j) ys\<rparr>)) = {}"
proof -
  have inj: "inj_on (\<lambda>j. fst (rows df ! j)) {0..<length (rows df)}"
  proof (rule inj_onI)
    fix a b
    assume "a \<in> {0..<length (rows df)}" and "b \<in> {0..<length (rows df)}"
      and "fst (rows df ! a) = fst (rows df ! b)"
    then have "labels df ! a = labels df ! b" and "a < length (labels df)" and "b < length (labels df)"
      by (simp_all add: labels_def)
    with assms(1) show "a = b"
      by (simp add: nth_eq_iff_index_eq)
  qed
  have "(\<lambda>j. fst (rows df ! j)) ` set xs \<inter> (\<lambda>j. fst (rows df ! j)) ` set ys
      = (\<lambda>j. fst (rows df ! j)) ` (set xs \<inter> set ys)"
    using inj assms(2,3) by (rule inj_on_image_Int [symmetric])
  then show ?thesis
    by (simp add: labels_picked assms(4))
qed

lemma count_list_card: "count_list xs v = card {i. i < length xs \<and> xs ! i = v}"
proof -
  have "{i. i < length xs \<and> v = xs ! i} = {i. i < length xs \<and> xs ! i = v}"
    by auto
  then show ?thesis
    by (simp add: count_list_eq_length_filter length_filter_conv_card)
qed

text \<open>
  A position in both views: every position outside the two views carries the same key,
  so the key occurs at least \<open>n + 2 - 2 k\<close> times.
\<close>

lemma overlap_many_equal:
  fixes ks :: "'a::linorder list"
  assumes "distinct tp" and "set tp \<subseteq> {0..<length ks}" and "length tp \<le> k"
    and "distinct bp" and "set bp \<subseteq> {0..<length ks}" and "length bp \<le> k"
    and hi: "\<And>a b. a \<in> set tp \<Longrightarrow> b < length ks \<Longrightarrow> b \<notin> set tp \<Longrightarrow> ks ! b \<le> ks ! a"
    and lo: "\<And>a b. a \<in> set bp \<Longrightarrow> b < length ks \<Longrightarrow> b \<notin> set bp \<Longrightarrow> ks ! a \<le> ks ! b"
    and "x \<in> set tp" and "x \<in> set bp"
  shows "length ks + 2 \<le> count_list ks (ks ! x) + 2 * k"
proof -
  let ?n = "length ks"
  let ?U = "set tp \<union> set bp"
  let ?E = "{i. i < ?n \<and> ks ! i = ks ! x}"
  let ?D = "{0..<?n} - ?U"
  have x: "x < ?n"
    using assms(2,9) by auto
  have "ks ! b = ks ! x" if "b \<in> ?D" for b
  proof -
    from that have "b < ?n" and "b \<notin> set tp" and "b \<notin> set bp"
      by auto
    then have "ks ! b \<le> ks ! x" and "ks ! x \<le> ks ! b"
      using hi [OF assms(9)] lo [OF assms(10)] by blast+
    then show ?thesis
      by (rule antisym)
  qed
  then have sub: "insert x ?D \<subseteq> ?E"
    using x by auto
  have "finite ?E"
    by simp
  from card_mono [OF this sub] have "card (insert x ?D) \<le> card ?E" .
  moreover have "x \<notin> ?D"
    using assms(9) by simp
  then have "card (insert x ?D) = Suc (card ?D)"
    by simp
  moreover have "card ?D = ?n - card ?U"
    using assms(2,5) card_Diff_subset [of ?U "{0..<?n}"] by simp
  ultimately have e: "Suc (?n - card ?U) \<le> card ?E"
    by simp
  have "card (set tp) + card (set bp) = card ?U + card (set tp \<inter> set bp)"
    by (rule card_Un_Int) simp_all
  moreover have "0 < card (set tp \<inter> set bp)"
    using assms(9,10) by (auto simp: card_gt_0_iff)
  moreover have "card (set tp) \<le> k" and "card (set bp) \<le> k"
    using assms(1,3,4,6) by (simp_all add: distinct_card)
  ultimately have "Suc (card ?U) \<le> 2 * k"
    by simp
  with e show ?thesis
    by (simp add: count_list_card)
qed

text \<open>
  Claim C6, as amended. For a normalized table, a metric of the select box and a size
  bound \<open>N\<close>, the top view is made of the rows at \<open>min N size\<close> different positions of the
  table, and the metric value at each of these positions is at least the value at every
  other position; the bottom view likewise, with at most. When every metric value
  occurs in fewer than \<open>size + 2 - 2 N\<close> rows, no row is in both views. (For a table of
  200 rows and \<open>N = 50\<close>: 50 rows each, and no row in both unless some value occurs in
  102 rows or more.)
\<close>

theorem top_and_bottom_views:
  fixes df :: "'a::linorder data_frame"
  assumes "normalized_frame df" and "argsort_ok argsort"
    and "metric_col selected = Inr col" and "0 \<le> N"
  shows "\<exists>top bottom tp bp.
      top_df argsort df col N = Inr top \<and> under_df argsort df col N = Inr bottom
    \<and> rows top = map (\<lambda>j. rows df ! j) tp \<and> rows bottom = map (\<lambda>j. rows df ! j) bp
    \<and> length tp = min (nat N) (length (rows df)) \<and> length bp = min (nat N) (length (rows df))
    \<and> distinct tp \<and> distinct bp
    \<and> set tp \<subseteq> {0..<length (rows df)} \<and> set bp \<subseteq> {0..<length (rows df)}
    \<and> length (metric_values df col) = length (rows df)
    \<and> (\<forall>a b. a \<in> set tp \<and> b < length (rows df) \<and> b \<notin> set tp
          \<longrightarrow> metric_values df col ! b \<le> metric_values df col ! a)
    \<and> (\<forall>a b. a \<in> set bp \<and> b < length (rows df) \<and> b \<notin> set bp
          \<longrightarrow> metric_values df col ! a \<le> metric_values df col ! b)
    \<and> (list_all (\<lambda>v. count_list (metric_values df col) v + 2 * nat N < length (rows df) + 2)
          (metric_values df col)
          \<longrightarrow> set tp \<inter> set bp = {} \<and> set (labels top) \<inter> set (labels bottom) = {})"
proof -
  let ?n = "length (rows df)" and ?ks = "metric_values df col" and ?k = "nat N"
  let ?pd = "desc_indexer argsort ?ks" and ?pa = "asc_indexer argsort ?ks"
  let ?tp = "take ?k ?pd" and ?bp = "take ?k ?pa"
  let ?top = "df\<lparr>rows := map (\<lambda>j. rows df ! j) ?tp\<rparr>"
  let ?bottom = "df\<lparr>rows := map (\<lambda>j. rows df ! j) ?bp\<rparr>"
  have col: "col \<in> set numeric_cols"
    using assms(3) by (rule metric_col_numeric)
  note sv = sort_values_normalized [OF assms(1) col assms(2)]
  note a = asc_indexer_props [OF assms(2), of ?ks, unfolded sv(3)]
  note d = desc_indexer_props [OF assms(2), of ?ks, unfolded sv(3)]
  have top: "top_df argsort df col N = Inr ?top"
    using assms(4) by (simp add: top_df_def sv(2) bind_e_def head_py_def take_map)
  have bottom: "under_df argsort df col N = Inr ?bottom"
    using assms(4) by (simp add: under_df_def sv(1) bind_e_def head_py_def take_map)
  have r: "rows ?top = map (\<lambda>j. rows df ! j) ?tp" "rows ?bottom = map (\<lambda>j. rows df ! j) ?bp"
    by simp_all
  have l: "length ?tp = min ?k ?n" "length ?bp = min ?k ?n"
    by (simp_all add: a(4) d(4) min.commute)
  have di: "distinct ?tp" "distinct ?bp"
    using a(1) d(1) by simp_all
  have sub: "set ?tp \<subseteq> {0..<?n}" "set ?bp \<subseteq> {0..<?n}"
    using set_take_subset [of ?k ?pd] set_take_subset [of ?k ?pa] by (simp_all only: a(2) d(2))
  have hi: "?ks ! b \<le> ?ks ! a" if "a \<in> set ?tp \<and> b < ?n \<and> b \<notin> set ?tp" for a b
  proof -
    from that have "b \<in> set (drop ?k ?pd)"
      by (intro outside_take [OF d(2)]) simp_all
    with d(3) that show ?thesis
      by (intro sorted_rev_take_drop [where f = "\<lambda>j. ?ks ! j" and xs = ?pd and k = ?k]) simp_all
  qed
  have lo: "?ks ! a \<le> ?ks ! b" if "a \<in> set ?bp \<and> b < ?n \<and> b \<notin> set ?bp" for a b
  proof -
    from that have "b \<in> set (drop ?k ?pa)"
      by (intro outside_take [OF a(2)]) simp_all
    with a(3) that show ?thesis
      by (intro sorted_take_drop [where f = "\<lambda>j. ?ks ! j" and xs = ?pa and k = ?k]) simp_all
  qed
  have dis: "set ?tp \<inter> set ?bp = {} \<and> set (labels ?top) \<inter> set (labels ?bottom) = {}"
    if few: "list_all (\<lambda>v. count_list ?ks v + 2 * ?k < ?n + 2) ?ks"
  proof -
    have "x \<notin> set ?bp" if x: "x \<in> set ?tp" for x
    proof
      assume y: "x \<in> set ?bp"
      have "length ?ks + 2 \<le> count_list ?ks (?ks ! x) + 2 * ?k"
      proof (rule overlap_many_equal [OF di(1) _ _ di(2) _ _ _ _ x y])
        show "set ?tp \<subseteq> {0..<length ?ks}" "set ?bp \<subseteq> {0..<length ?ks}"
          using sub by (simp_all only: sv(3))
        show "length ?tp \<le> ?k" "length ?bp \<le> ?k"
          by simp_all
        show "?ks ! b \<le> ?ks ! a" if "a \<in> set ?tp" "b < length ?ks" "b \<notin> set ?tp" for a b
          using that hi [of a b] by (simp add: sv(3))
        show "?ks ! a \<le> ?ks ! b" if "a \<in> set ?bp" "b < length ?ks" "b \<notin> set ?bp" for a b
          using that lo [of a b] by (simp add: sv(3))
      qed
      moreover have "x < length ?ks"
        using x sub(1) by (auto simp: sv(3))
      then have "?ks ! x \<in> set ?ks"
        by simp
      with few have "count_list ?ks (?ks ! x) + 2 * ?k < ?n + 2"
        by (simp add: list_all_iff)
      ultimately show False
        by (simp add: sv(3))
    qed
    then have p: "set ?tp \<inter> set ?bp = {}"
      by blast
    have "distinct (labels df)"
      using assms(1) by (simp add: normalized_frame_def)
    from labels_disjoint [OF this sub p] p show ?thesis
      by simp
  qed
  show ?thesis
    apply (rule exI [of _ ?top], rule exI [of _ ?bottom], rule exI [of _ ?tp], rule exI [of _ ?bp])
    apply (intro conjI allI impI top bottom r l di sub sv(3))
       apply (erule hi)
      apply (erule lo)
     apply (drule dis, erule conjunct1)
    apply (drule dis, erule conjunct2)
    done
qed

lemma fetched_normalized_frame:
  assumes "fetch_etf_data pandas2 p net = Inr (df, tr)"
  shows "normalized_frame df"
  unfolding normalized_frame_def
proof (intro conjI)
  show "columns df = Index final_columns"
    using assms by (rule fetched_columns)
  show "list_all (\<lambda>lr. list_all (numeric_cell df (snd lr)) numeric_cols) (rows df)"
    using assms by (rule fetched_rows_numeric)
  from assms obtain s :: "'a fetch_state" where
    df: "df = normalized p \<lparr>columns = Index raw_columns,
                rows = zip [0..<length (all_data s)] (map cells_of (all_data s))\<rparr>"
    by (rule fetch_etf_data_cases)
  let ?zs = "zip [0..<length (all_data s)] (map cells_of (all_data s))"
  let ?g = "\<lambda>lr. (fst lr, coerce_cells p [2, 3, 4, 5, 6, 7, 8, 9] (snd lr))"
  have "distinct (map fst ?zs)"
    by simp
  then have "distinct (map fst (filter keeps ?zs))"
    by (rule distinct_map_filter)
  then have "distinct (map fst (map ?g (filter keeps ?zs)))"
    by (simp add: o_def)
  then have "distinct (map fst (filter keeps (map ?g (filter keeps ?zs))))"
    by (rule distinct_map_filter)
  then show "distinct (labels df)"
    by (simp add: df labels_def rows_normalized)
qed

lemma uniform_is_fund_frame: "uniform_frame n = fund_frame (\<lambda>k. 4) n"
  by (simp add: uniform_frame_def fund_frame_def)

lemma fund_row_numeric:
  "list_all (numeric_cell \<lparr>columns = Index final_columns, rows = xs\<rparr>
      [Val (JStr ''F''), Val (JStr ''E_G''), Val (JNum 100), Val (JNum 10),
       Val (JNum 1), Val (JNum 2), Val (JNum 3), Val (JNum v), Val (JNum 5), Val (JNum 1)])
     numeric_cols"
  by (simp add: numeric_cell_def get_loc_def final_columns_def cell_at_def numeric_cols_def)

lemma normalized_fund_frame: "normalized_frame (fund_frame f n)"
  unfolding normalized_frame_def
proof (intro conjI)
  show "columns (fund_frame f n) = Index final_columns"
    by (simp add: fund_frame_def)
  show "distinct (labels (fund_frame f n))"
    by (simp add: fund_frame_def labels_def o_def)
  have "list_all (numeric_cell (fund_frame f n) (snd lr)) numeric_cols"
    if "lr \<in> set (rows (fund_frame f n))" for lr
    using that unfolding fund_frame_def by (auto simp: fund_row_numeric)
  then show "list_all (\<lambda>lr. list_all (numeric_cell (fund_frame f n) (snd lr)) numeric_cols)
          (rows (fund_frame f n))"
    by (simp add: list_all_iff)
qed

lemma get_loc_1y: "get_loc (Index final_columns) ''1Y_Return'' = Inr 7"
  by (simp add: get_loc_def final_columns_def)

lemma metric_values_fund_frame: "metric_values (fund_frame f n) ''1Y_Return'' = map f [0..<n]"
proof -
  have "List.map_filter (\<lambda>lr. num_key (cell_at (snd lr) 7))
          (map (\<lambda>k. (k, [Val (JStr ''F''), Val (JStr ''E_G''), Val (JNum 100), Val (JNum 10),
                 Val (JNum 1), Val (JNum 2), Val (JNum 3), Val (JNum (f k)), Val (JNum 5),
                 Val (JNum 1)])) ks) = map f ks" for ks
    by (induction ks) (simp_all add: map_filter_simps num_key_def cell_at_def)
  then show ?thesis
    by (simp add: metric_values_def fund_frame_def get_loc_1y del: upt_Suc)
qed

lemma metric_col_1y: "metric_col ''1 Year Return'' = Inr ''1Y_Return''"
  by (simp add: metric_col_def metric_map_def)

lemma argsort_stable_ok: "argsort_ok (argsort_stable :: 'a::linorder list \<Rightarrow> nat list)"
  unfolding argsort_ok_def
proof (intro allI conjI)
  fix xs :: "'a list"
  let ?zs = "zip xs [0..<length xs]"
  let ?ss = "sort_key fst ?zs"
  have el: "fst e = xs ! snd e" if "e \<in> set ?zs" for e
    using that by (auto simp: set_zip)
  have inj: "inj_on snd (set ?zs)"
  proof (rule inj_onI)
    fix a b assume "a \<in> set ?zs" and "b \<in> set ?zs" and "snd a = snd b"
    then show "a = b"
      using el [of a] el [of b] by (simp add: prod_eq_iff)
  qed
  have "distinct ?zs"
    by (rule distinct_zipI2) simp
  then show "distinct (argsort_stable xs)"
    by (simp add: argsort_stable_def distinct_map inj)
  have m: "map snd ?zs = [0..<length xs]"
    by (rule map_snd_zip) simp
  have "snd ` set ?zs = {0..<length xs}"
    using arg_cong [OF m, of set] by (simp only: set_map set_upt)
  then show "set (argsort_stable xs) = {0..<length xs}"
    by (simp add: argsort_stable_def)
  have e: "map (\<lambda>e. xs ! snd e) ?ss = map fst ?ss"
    by (rule map_cong) (simp_all add: el)
  have "map (\<lambda>j. xs ! j) (argsort_stable xs) = map fst ?ss"
    unfolding argsort_stable_def map_map o_def by (rule e)
  then show "sorted (map (\<lambda>j. xs ! j) (argsort_stable xs))"
    by (simp only: sorted_sort_key)
qed

lemma argsort_stable_replicate: "argsort_stable (replicate n c) = [0..<n]"
proof -
  have "sorted (map fst (zip (replicate n c) [0..<n]))"
    by simp
  then have "sort_key fst (zip (replicate n c) [0..<n]) = zip (replicate n c) [0..<n]"
    by (rule sort_key_id_if_sorted)
  then show ?thesis
    by (simp add: argsort_stable_def)
qed

lemma map_diff_upt: "map (\<lambda>j. n - Suc j) [0..<n] = rev [0..<n]"
  by (rule nth_equalityI) (simp_all add: rev_nth)

lemma uniform_sorted:
  "sort_values argsort_stable (uniform_frame n) ''1Y_Return'' ascending = Inr (uniform_frame n)"
proof -
  have ks: "metric_values (uniform_frame n) ''1Y_Return'' = replicate n 4"
    by (simp add: uniform_is_fund_frame metric_values_fund_frame map_replicate_const)
  have col: "''1Y_Return'' \<in> set numeric_cols"
    by (simp add: numeric_cols_def)
  have nf: "normalized_frame (uniform_frame n)"
    by (simp add: uniform_is_fund_frame normalized_fund_frame)
  note sv = sort_values_normalized [OF nf col argsort_stable_ok]
  have len: "length (rows (uniform_frame n)) = n"
    by (simp add: uniform_frame_def)
  have a: "asc_indexer argsort_stable (replicate n (4::int)) = [0..<n]"
    by (simp add: asc_indexer_def argsort_stable_replicate)
  have d: "desc_indexer argsort_stable (replicate n (4::int)) = [0..<n]"
    by (simp add: desc_indexer_def argsort_stable_replicate map_diff_upt)
  have id: "map (\<lambda>j. rows (uniform_frame n) ! j) [0..<n] = rows (uniform_frame n)"
    using map_nth [of "rows (uniform_frame n)"] by (simp only: len)
  show ?thesis
    by (cases ascending) (simp_all only: sv(1,2) ks a d id, simp_all)
qed

lemma head_uniform:
  assumes "k \<le> n"
  shows "head_py (int k) (uniform_frame n) = uniform_frame k"
  using assms by (simp add: head_py_def uniform_frame_def take_map take_upt del: upt_Suc)

lemma uniform_views:
  assumes "k \<le> n"
  shows "top_df argsort_stable (uniform_frame n) ''1Y_Return'' (int k) = Inr (uniform_frame k)"
    and "under_df argsort_stable (uniform_frame n) ''1Y_Return'' (int k) = Inr (uniform_frame k)"
  by (simp_all add: top_df_def under_df_def uniform_sorted bind_e_def head_uniform [OF assms])

lemma uniform_keys:
  "List.map_filter (\<lambda>lr. num_key (cell_at (snd lr) 9))
     (map (\<lambda>k. (k, [Val (JStr ''F''), Val (JStr ''E_G''), Val (JNum 100), Val (JNum 10),
                 Val (JNum 1), Val (JNum 2), Val (JNum 3), Val (JNum 4), Val (JNum 5),
                 Val (JNum (1::int))])) ks) = replicate (length ks) 1"
  by (induction ks) (simp_all add: map_filter_simps num_key_def cell_at_def)

lemma funpow_min_max: "(min x ^^ n) x = (x :: int)" "(max x ^^ n) x = x"
  by (induction n) simp_all

lemma uniform_spans:
  assumes "0 < n"
  shows "series_min (uniform_frame n) ''Expense_Ratio'' = Inr (Some 1)"
    and "series_max (uniform_frame n) ''Expense_Ratio'' = Inr (Some 1)"
proof -
  from assms obtain m where n: "n = Suc m"
    by (cases n) auto
  have "List.map_filter (\<lambda>lr. num_key (cell_at (snd lr) 9)) (rows (uniform_frame n))
      = 1 # replicate m 1"
    unfolding uniform_frame_def by (simp add: uniform_keys n del: upt_Suc)
  then show "series_min (uniform_frame n) ''Expense_Ratio'' = Inr (Some 1)"
    and "series_max (uniform_frame n) ''Expense_Ratio'' = Inr (Some 1)"
    by (simp_all add: series_min_def series_max_def bind_e_def get_loc_expense funpow_min_max
        uniform_frame_def del: upt_Suc)
qed

lemma uniform_refused:
  assumes "0 < n"
  shows "top_filtered (uniform_frame n) None None = Inl StreamlitAPIException"
    and "under_filtered (uniform_frame n) None None = Inl StreamlitAPIException"
proof -
  have "top_expense (uniform_frame n) None = Inl StreamlitAPIException"
    by (simp add: top_expense_def uniform_spans [OF assms] bind_e_def range_slider_def)
  then show "top_filtered (uniform_frame n) None None = Inl StreamlitAPIException"
    by (simp add: top_filtered_def bind_e_def)
  then show "under_filtered (uniform_frame n) None None = Inl StreamlitAPIException"
    by (simp only: under_filtered_eq)
qed

text \<open>
  Views in which the expense ratio takes one value only: the one row that the example
  endpoint delivers, and the 50 rows of a table of 200 funds with the same expense
  ratio. The slider of line 119 (of line 138 for the bottom view) raises
  \<^verbatim>\<open>StreamlitAPIException\<close>, the script stops there, and no filter is applied.
\<close>

lemma single_value_view_refused:
  "fetch_etf_data True (\<lambda>s. None) example_net = Inr (example_frame, example_trace)
   \<and> top_n example_frame None = 50
   \<and> top_df argsort_stable example_frame ''1Y_Return'' 50 = Inr example_frame
   \<and> under_df argsort_stable example_frame ''1Y_Return'' 50 = Inr example_frame
   \<and> series_min example_frame ''Expense_Ratio'' = Inr (Some 1)
   \<and> series_max example_frame ''Expense_Ratio'' = Inr (Some 1)
   \<and> top_expense example_frame None = Inl StreamlitAPIException
   \<and> top_filtered example_frame None None = Inl StreamlitAPIException
   \<and> under_expense example_frame None = Inl StreamlitAPIException
   \<and> under_filtered example_frame None None = Inl StreamlitAPIException
   \<and> normalized_frame (uniform_frame 200)
   \<and> top_n (uniform_frame 200) None = 50
   \<and> top_df argsort_stable (uniform_frame 200) ''1Y_Return'' 50 = Inr (uniform_frame 50)
   \<and> under_df argsort_stable (uniform_frame 200) ''1Y_Return'' 50 = Inr (uniform_frame 50)
   \<and> series_min (uniform_frame 50) ''Expense_Ratio'' = Inr (Some 1)
   \<and> series_max (uniform_frame 50) ''Expense_Ratio'' = Inr (Some 1)
   \<and> top_filtered (uniform_frame 50) None None = Inl StreamlitAPIException
   \<and> under_filtered (uniform_frame 50) None None = Inl StreamlitAPIException"
proof -
  have e: "top_expense example_frame None = Inl StreamlitAPIException"
    "under_expense example_frame None = Inl StreamlitAPIException"
    by (simp_all add: top_expense_def under_expense_def example_spans bind_e_def
        range_slider_def)
  then have f: "top_filtered example_frame None None = Inl StreamlitAPIException"
    "under_filtered example_frame None None = Inl StreamlitAPIException"
    by (simp_all add: top_filtered_def under_filtered_def bind_e_def)
  have n: "normalized_frame (uniform_frame 200)"
    by (simp add: uniform_is_fund_frame normalized_fund_frame)
  have "(50::nat) \<le> 200" and p: "(0::nat) < 50"
    by simp_all
  note v = uniform_views [OF this(1), simplified]
  show ?thesis
    by (intro conjI example_fetch_etf_data top_n_default example_top_view example_under_view
        example_spans(1,2) e f n v uniform_spans [OF p] uniform_refused [OF p])
qed

theorem views_overlap_counterexample:
  "normalized_frame (uniform_frame 200)
   \<and> argsort_ok (argsort_stable :: int list \<Rightarrow> nat list)
   \<and> length (rows (uniform_frame 200)) = 200
   \<and> metric_col ''1 Year Return'' = Inr ''1Y_Return''
   \<and> top_df argsort_stable (uniform_frame 200) ''1Y_Return'' 50 = Inr (uniform_frame 50)
   \<and> under_df argsort_stable (uniform_frame 200) ''1Y_Return'' 50 = Inr (uniform_frame 50)
   \<and> labels (uniform_frame 50) = [0..<50]"
proof -
  have n: "normalized_frame (uniform_frame 200)"
    by (simp add: uniform_is_fund_frame normalized_fund_frame)
  have l: "length (rows (uniform_frame 200)) = 200"
    by (simp add: uniform_frame_def)
  have lab: "labels (uniform_frame 50) = [0..<50]"
    by (simp add: uniform_frame_def labels_def o_def del: upt_Suc)
  have "(50::nat) \<le> 200"
    by simp
  note v = uniform_views [OF this, simplified]
  show ?thesis
    by (intro conjI n argsort_stable_ok l metric_col_1y v lab)
qed

lemma pair_counts: "count_list (map (\<lambda>k. int (k div 2)) [0..<n]) v \<le> 2"
proof -
  have half: "i = 2 * m \<or> i = Suc (2 * m)" if "i div 2 = m" for i m :: nat
    using that by presburger
  have "i = 2 * nat v \<or> i = Suc (2 * nat v)" if "int (i div 2) = v" for i
  proof (rule half)
    from that show "i div 2 = nat v"
      by auto
  qed
  then have "{i. i < n \<and> int (i div 2) = v} \<subseteq> {2 * nat v, Suc (2 * nat v)}"
    by auto
  then have "card {i. i < n \<and> int (i div 2) = v} \<le> card {2 * nat v, Suc (2 * nat v)}"
    by (intro card_mono) simp_all
  also have "\<dots> \<le> 2"
    by (simp add: card_insert_if)
  finally have "card {i. i < n \<and> int (i div 2) = v} \<le> 2" .
  moreover have "{i. i < n \<and> map (\<lambda>k. int (k div 2)) [0..<n] ! i = v} = {i. i < n \<and> int (i div 2) = v}"
    by auto
  ultimately show ?thesis
    by (simp add: count_list_card)
qed

theorem top_and_bottom_views_witness:
  "\<exists>top bottom.
      top_df argsort_stable (fund_frame (\<lambda>k. int (k div 2)) 200) ''1Y_Return'' 50 = Inr top
    \<and> under_df argsort_stable (fund_frame (\<lambda>k. int (k div 2)) 200) ''1Y_Return'' 50 = Inr bottom
    \<and> length (rows top) = 50 \<and> length (rows bottom) = 50
    \<and> set (labels top) \<inter> set (labels bottom) = {}"
proof -
  let ?df = "fund_frame (\<lambda>k. int (k div 2)) 200"
  have z: "(0::int) \<le> 50"
    by simp
  have len: "length (rows ?df) = 200"
    by (simp add: fund_frame_def)
  have "count_list (metric_values ?df ''1Y_Return'') v + 2 * nat 50 < length (rows ?df) + 2" for v
    using pair_counts [of 200 v] by (simp add: metric_values_fund_frame len)
  then have few: "list_all (\<lambda>v. count_list (metric_values ?df ''1Y_Return'') v + 2 * nat 50
      < length (rows ?df) + 2) (metric_values ?df ''1Y_Return'')"
    by (simp add: list_all_iff)
  from top_and_bottom_views [OF normalized_fund_frame argsort_stable_ok metric_col_1y z,
      of "\<lambda>k. int (k div 2)" 200]
  obtain top bottom tp bp where "top_df argsort_stable ?df ''1Y_Return'' 50 = Inr top"
    and "under_df argsort_stable ?df ''1Y_Return'' 50 = Inr bottom"
    and "rows top = map (\<lambda>j. rows ?df ! j) tp"
    and "rows bottom = map (\<lambda>j. rows ?df ! j) bp"
    and "length tp = min (nat 50) (length (rows ?df))"
    and "length bp = min (nat 50) (length (rows ?df))"
    and "list_all (\<lambda>v. count_list (metric_values ?df ''1Y_Return'') v + 2 * nat 50
            < length (rows ?df) + 2) (metric_values ?df ''1Y_Return'')
          \<longrightarrow> set tp \<inter> set bp = {} \<and> set (labels top) \<inter> set (labels bottom) = {}"
    by blast
  with few show ?thesis
    by (simp add: len)
qed

end
